theory Spec2Isabelle
  imports Complex_Main
begin

section \<open>The WSLCB portal wrapper (cannapy/us/wa/wslcb/portal.py)\<close>

text \<open>
  The module wraps a sodapy \<open>Socrata\<close> client.  Everything the wrapper does itself
  (the lazy client, the token, the count extraction, the paging loop, the column
  lookup) is embedded below as it is written.  What it calls out to (the process
  environment, the Socrata client, pandas, \<open>time.localtime\<close>) is a parameter of the
  model: a \<open>host\<close> answers each outbound call, and every outbound call is recorded,
  with its answer, in an event list carried by the state.
\<close>

subsection \<open>Values\<close>

text \<open>
  A Python float, as far as \<open>int\<close> tells floats apart: a finite one by its value (every
  finite double is a rational), the two infinities and not-a-number, all of which the
  JSON decoder produces.
\<close>

datatype pyfloat = Finite rat | Infinity | MinusInfinity | NaN

text \<open>
  A decoded JSON value.  A string is the list of its characters, each a code point
  below 256.
\<close>

datatype json =
    JNull
  | JBool bool
  | JInt int
  | JFloat pyfloat
  | JStr string
  | JArray "json list"
  | JObject "(string \<times> json) list"

text \<open>
  A row, and a metadata record, is a Python dict from column name to value: a list of
  key/value pairs in the dict's key order, read with \<open>map_of\<close>.
\<close>

type_synonym row = "(string \<times> json) list"

text \<open>
  The exceptions the wrapper's own expressions raise, and \<open>OtherError\<close> for every other
  exception class a collaborator raises (an HTTP error, a connection error, ...).
\<close>

datatype error =
    IndexError
  | KeyError string
  | ValueError
  | TypeError
  | OverflowError
  | OtherError string

text \<open>\<open>Socrata(domain, app_token)\<close>: the client object, with what it was built from.\<close>

datatype handle = Socrata string string

text \<open>The keyword arguments of \<open>Socrata.get\<close> that the wrapper passes; an absent one is \<open>None\<close>.\<close>

record query =
  q_select :: "string option"
  q_order :: "string option"
  q_offset :: "int option"
  q_limit :: "int option"

datatype dataframe = DataFrame "string list" "json list list"

datatype struct_time = StructTime int int int int int int int int int

text \<open>One outbound call, with its arguments and what came back.\<close>

datatype event =
    Getenv string "string option"
  | NewSocrata string string
  | GetMetadata handle string "error + row"
  | Get handle string query "error + row list"
  | FromRecords "row list" "string list" "error + dataframe"
  | Localtime json "error + struct_time"

text \<open>
  The outside world.  Each answer may depend on all the calls made before it (the first
  argument), so a dataset that changes between two requests is covered.
  \<open>int_max_str_digits\<close> is the interpreter's limit on the digits of a string that \<open>int\<close>
  converts (\<open>sys.get_int_max_str_digits()\<close>, 4300 unless configured), and 0 where there
  is no limit.
\<close>

record host =
  environ :: "string \<Rightarrow> string option"
  int_max_str_digits :: nat
  get_reply :: "event list \<Rightarrow> handle \<Rightarrow> string \<Rightarrow> query \<Rightarrow> error + row list"
  get_metadata_reply :: "event list \<Rightarrow> handle \<Rightarrow> string \<Rightarrow> error + row"
  from_records_reply :: "event list \<Rightarrow> row list \<Rightarrow> string list \<Rightarrow> error + dataframe"
  localtime_reply :: "event list \<Rightarrow> json \<Rightarrow> error + struct_time"

text \<open>
  A \<open>WSLCBPortal\<close> instance (\<open>self._app_token\<close>, \<open>self._client\<close>) together with the
  outbound calls made so far, oldest first.
\<close>

record state =
  self_app_token :: string
  self_client :: "handle option"
  events :: "event list"

subsection \<open>Constants of the module\<close>

definition WSLCB_PORTAL_URL :: string where
  "WSLCB_PORTAL_URL = ''data.lcb.wa.gov''"

definition WSLCB_PORTAL_DATASET_COLUMNS :: "(string \<times> string list) list" where
  "WSLCB_PORTAL_DATASET_COLUMNS =
    [(''3qmf-vgdg'', [''date'', ''license_number'', ''county_name'', ''city_name'',
                      ''action'']),
     (''8rrd-wvpk'', [''sales_date'', ''sales_year_month'', ''pounds_harvested'',
                      ''grams_harvested'']),
     (''bhbp-x4eb'', [''license'', ''type'', ''createdate'', ''active'', ''organization'',
                      ''address'', ''address_line_2'', ''city'', ''state'', ''zip'',
                      ''county'', ''dayphone'', ''ubi'']),
     (''dgm4-3cm6'', [''visit_date'', ''license_number'', ''county_name'', ''city_name'',
                      ''case'', ''violation_code'', ''wac_code'', ''penalty_type'']),
     (''kdyh-jjfc'', [''sales_date'', ''sales_year_month'', ''type'',
                      ''child_usableweight_grams'', ''child_usableweight_pounds'']),
     (''msk5-ts9q'', [''sessiontimedate'', ''orgname'', ''inventory_type'',
                      ''usableweight_grams'', ''usableweight_pounds'', ''price'']),
     (''w7wg-8m52'', [''date'', ''license_number'', ''city_name'', ''county_name'',
                      ''activity'']),
     (''vbqh-2tf4'', [''sales_date'', ''sales_year_month'', ''organization'', ''type'',
                      ''childweight_pounds'', ''childweight_grams''])]"

subsection \<open>Python built-ins the wrapper uses\<close>

text \<open>
  \<open>int(x)\<close> on a decoded JSON value.  On a string: white space is stripped from both
  ends, one sign may follow, then decimal digits, where a single underscore may stand
  between two digits; more digits than the interpreter's limit raise \<open>ValueError\<close>.
  White space is what \<open>int\<close> skips among the code points below 256: tab, line feed,
  vertical tab, form feed, carriage return, space, next line (U+0085) and no-break
  space (U+00A0).  On a float \<open>int\<close> truncates towards zero.
\<close>

definition is_space :: "char \<Rightarrow> bool" where
  "is_space c = ((of_char c :: nat) \<in> set [9, 10, 11, 12, 13, 32, 133, 160])"

definition is_digit :: "char \<Rightarrow> bool" where
  "is_digit c = (48 \<le> (of_char c :: nat) \<and> (of_char c :: nat) \<le> 57)"

definition digit_val :: "char \<Rightarrow> int" where
  "digit_val c = int (of_char c) - 48"

definition strip :: "string \<Rightarrow> string" where
  "strip s = rev (dropWhile is_space (rev (dropWhile is_space s)))"

fun digits_value :: "int \<Rightarrow> string \<Rightarrow> int option" where
  "digits_value acc [] = Some acc"
| "digits_value acc [c] =
     (if is_digit c then Some (10 * acc + digit_val c) else None)"
| "digits_value acc (c # d # cs) =
     (if is_digit c then digits_value (10 * acc + digit_val c) (d # cs)
      else if c = CHR ''_'' \<and> is_digit d then digits_value acc (d # cs)
      else None)"

definition unsigned_value :: "string \<Rightarrow> int option" where
  "unsigned_value body =
     (case body of
        [] \<Rightarrow> None
      | c # _ \<Rightarrow> if is_digit c then digits_value 0 body else None)"

definition int_of_str :: "nat \<Rightarrow> string \<Rightarrow> error + int" where
  "int_of_str max_digits s =
     (let t = strip s;
          (sign, body) =
            (case t of
               [] \<Rightarrow> (1, t)
             | c # r \<Rightarrow>
                 if c = CHR ''-'' then (- 1, r)
                 else if c = CHR ''+'' then (1, r)
                 else (1, t))
      in case unsigned_value body of
           None \<Rightarrow> Inl ValueError
         | Some n \<Rightarrow>
             if max_digits \<noteq> 0 \<and> max_digits < length (filter is_digit body)
             then Inl ValueError
             else Inr (sign * n))"

fun int_of_float :: "pyfloat \<Rightarrow> error + int" where
  "int_of_float (Finite q) = Inr (if 0 \<le> q then \<lfloor>q\<rfloor> else \<lceil>q\<rceil>)"
| "int_of_float Infinity = Inl OverflowError"
| "int_of_float MinusInfinity = Inl OverflowError"
| "int_of_float NaN = Inl ValueError"

fun py_int :: "nat \<Rightarrow> json \<Rightarrow> error + int" where
  "py_int max_digits JNull = Inl TypeError"
| "py_int max_digits (JBool b) = Inr (if b then 1 else 0)"
| "py_int max_digits (JInt i) = Inr i"
| "py_int max_digits (JFloat x) = int_of_float x"
| "py_int max_digits (JStr s) = int_of_str max_digits s"
| "py_int max_digits (JArray xs) = Inl TypeError"
| "py_int max_digits (JObject kvs) = Inl TypeError"

text \<open>
  \<open>range(start, stop, step)\<close> as the list of values a \<open>for\<close> loop runs through, for a
  positive step (the only use has step 100000).
\<close>

function py_range :: "int \<Rightarrow> int \<Rightarrow> int \<Rightarrow> int list" where
  "py_range start stop step =
     (if 0 < step \<and> start < stop then start # py_range (start + step) stop step else [])"
  by pat_completeness auto
termination
  by (relation "measure (\<lambda>(start, stop, step). nat (stop - start))") auto

declare py_range.simps [simp del]

subsection \<open>Outbound calls\<close>

text \<open>Each asks the host and appends the call, with its answer, to the events.\<close>

definition getenv :: "host \<Rightarrow> string \<Rightarrow> string \<Rightarrow> event list \<Rightarrow> string \<times> event list" where
  "getenv h name dflt evs =
     (let v = environ h name
      in (case v of None \<Rightarrow> dflt | Some t \<Rightarrow> t, evs @ [Getenv name v]))"

definition socrata_get ::
  "host \<Rightarrow> handle \<Rightarrow> string \<Rightarrow> query \<Rightarrow> state \<Rightarrow> (error + row list) \<times> state" where
  "socrata_get h c dataset_id q s =
     (let r = get_reply h (events s) c dataset_id q
      in (r, s\<lparr>events := events s @ [Get c dataset_id q r]\<rparr>))"

definition socrata_get_metadata ::
  "host \<Rightarrow> handle \<Rightarrow> string \<Rightarrow> state \<Rightarrow> (error + row) \<times> state" where
  "socrata_get_metadata h c dataset_id s =
     (let r = get_metadata_reply h (events s) c dataset_id
      in (r, s\<lparr>events := events s @ [GetMetadata c dataset_id r]\<rparr>))"

definition from_records ::
  "host \<Rightarrow> row list \<Rightarrow> string list \<Rightarrow> state \<Rightarrow> (error + dataframe) \<times> state" where
  "from_records h dataset columns s =
     (let r = from_records_reply h (events s) dataset columns
      in (r, s\<lparr>events := events s @ [FromRecords dataset columns r]\<rparr>))"

definition localtime :: "host \<Rightarrow> json \<Rightarrow> state \<Rightarrow> (error + struct_time) \<times> state" where
  "localtime h t s =
     (let r = localtime_reply h (events s) t
      in (r, s\<lparr>events := events s @ [Localtime t r]\<rparr>))"

subsection \<open>class WSLCBPortal\<close>

definition init :: "host \<Rightarrow> string \<Rightarrow> state" where
  "init h app_token =
     (let (app_token', evs) =
            (if app_token = '''' then getenv h ''WSLCB_APP_TOKEN'' '''' []
             else (app_token, []))
      in \<lparr>self_app_token = app_token', self_client = None, events = evs\<rparr>)"

definition app_token :: "state \<Rightarrow> string" where
  "app_token s = self_app_token s"

definition set_app_token :: "string \<Rightarrow> state \<Rightarrow> state" where
  "set_app_token v s = s\<lparr>self_app_token := v\<rparr>"

definition client :: "state \<Rightarrow> handle \<times> state" where
  "client s =
     (case self_client s of
        None \<Rightarrow>
          (let c = Socrata WSLCB_PORTAL_URL (app_token s)
           in (c, s\<lparr>self_client := Some c,
                    events := events s @ [NewSocrata WSLCB_PORTAL_URL (app_token s)]\<rparr>))
      | Some c \<Rightarrow> (c, s))"

definition get_dataset_metadata :: "host \<Rightarrow> string \<Rightarrow> state \<Rightarrow> (error + row) \<times> state" where
  "get_dataset_metadata h dataset_id s =
     (let (c, s1) = client s
      in socrata_get_metadata h c dataset_id s1)"

definition count_query :: query where
  "count_query = \<lparr>q_select = Some ''count(*)'', q_order = None, q_offset = None, q_limit = None\<rparr>"

definition get_dataset_count :: "host \<Rightarrow> string \<Rightarrow> state \<Rightarrow> (error + int) \<times> state" where
  "get_dataset_count h dataset_id s =
     (let (c, s1) = client s
      in case socrata_get h c dataset_id count_query s1 of
           (Inl e, s2) \<Rightarrow> (Inl e, s2)
         | (Inr metadata, s2) \<Rightarrow>
             (case metadata of
                [] \<Rightarrow> (Inl IndexError, s2)
              | r # _ \<Rightarrow>
                  (case map_of r ''count'' of
                     None \<Rightarrow> (Inl (KeyError ''count''), s2)
                   | Some v \<Rightarrow> (py_int (int_max_str_digits h) v, s2))))"

definition get_dataset :: "host \<Rightarrow> string \<Rightarrow> state \<Rightarrow> (error + row list) \<times> state" where
  "get_dataset h dataset_id s =
     (let (c, s1) = client s
      in socrata_get h c dataset_id
           \<lparr>q_select = None, q_order = None, q_offset = None, q_limit = Some 100000\<rparr> s1)"

definition page_query :: "string \<Rightarrow> int \<Rightarrow> int \<Rightarrow> query" where
  "page_query order_by offset limit =
     \<lparr>q_select = None, q_order = Some order_by, q_offset = Some offset, q_limit = Some limit\<rparr>"

text \<open>The body of the \<open>for\<close> loop of \<open>get_entire_dataset\<close>, over the offsets still to come.\<close>

fun fetch_pages ::
  "host \<Rightarrow> string \<Rightarrow> string \<Rightarrow> int \<Rightarrow> int list \<Rightarrow> row list \<Rightarrow> state
     \<Rightarrow> (error + row list) \<times> state" where
  "fetch_pages h dataset_id order_by limit [] dataset s = (Inr dataset, s)"
| "fetch_pages h dataset_id order_by limit (offset # rest) dataset s =
     (let (c, s1) = client s
      in case socrata_get h c dataset_id (page_query order_by offset limit) s1 of
           (Inl e, s2) \<Rightarrow> (Inl e, s2)
         | (Inr page, s2) \<Rightarrow>
             fetch_pages h dataset_id order_by limit rest (dataset @ page) s2)"

definition get_entire_dataset ::
  "host \<Rightarrow> string \<Rightarrow> string \<Rightarrow> state \<Rightarrow> (error + row list) \<times> state" where
  "get_entire_dataset h dataset_id order_by s =
     (case get_dataset_count h dataset_id s of
        (Inl e, s1) \<Rightarrow> (Inl e, s1)
      | (Inr count, s1) \<Rightarrow>
          (let limit = 100000
           in fetch_pages h dataset_id order_by limit (py_range 0 count limit) [] s1))"

definition get_dataframe :: "host \<Rightarrow> string \<Rightarrow> state \<Rightarrow> (error + dataframe) \<times> state" where
  "get_dataframe h dataset_id s =
     (case get_dataset h dataset_id s of
        (Inl e, s1) \<Rightarrow> (Inl e, s1)
      | (Inr dataset, s1) \<Rightarrow>
          (case map_of WSLCB_PORTAL_DATASET_COLUMNS dataset_id of
             None \<Rightarrow> (Inl (KeyError dataset_id), s1)
           | Some columns \<Rightarrow> from_records h dataset columns s1))"

definition dataset_last_updated ::
  "host \<Rightarrow> string \<Rightarrow> state \<Rightarrow> (error + struct_time) \<times> state" where
  "dataset_last_updated h dataset_id s =
     (case get_dataset_metadata h dataset_id s of
        (Inl e, s1) \<Rightarrow> (Inl e, s1)
      | (Inr metadata, s1) \<Rightarrow>
          (case map_of metadata ''rowsUpdatedAt'' of
             None \<Rightarrow> (Inl (KeyError ''rowsUpdatedAt''), s1)
           | Some last_updated \<Rightarrow> localtime h last_updated s1))"

subsection \<open>Using an instance\<close>

text \<open>
  What a caller can do with an instance, one constructor per method and property of the
  class; \<open>invoke\<close> keeps the state the call leaves behind, whether it returned or raised.
\<close>

datatype operation =
    Get_dataset_metadata string
  | Get_dataset_count string
  | Get_dataset string
  | Get_entire_dataset string string
  | Get_dataframe string
  | Dataset_last_updated string
  | Read_app_token
  | Write_app_token string
  | Read_client

fun invoke :: "host \<Rightarrow> operation \<Rightarrow> state \<Rightarrow> state" where
  "invoke h (Get_dataset_metadata d) s = snd (get_dataset_metadata h d s)"
| "invoke h (Get_dataset_count d) s = snd (get_dataset_count h d s)"
| "invoke h (Get_dataset d) s = snd (get_dataset h d s)"
| "invoke h (Get_entire_dataset d order_by) s = snd (get_entire_dataset h d order_by s)"
| "invoke h (Get_dataframe d) s = snd (get_dataframe h d s)"
| "invoke h (Dataset_last_updated d) s = snd (dataset_last_updated h d s)"
| "invoke h Read_app_token s = s"
| "invoke h (Write_app_token v) s = set_app_token v s"
| "invoke h Read_client s = snd (client s)"

fun invoke_all :: "host \<Rightarrow> operation list \<Rightarrow> state \<Rightarrow> state" where
  "invoke_all h [] s = s"
| "invoke_all h (m # ms) s = invoke_all h ms (invoke h m s)"

text \<open>The one method that assigns the token.\<close>

fun is_setter :: "operation \<Rightarrow> bool" where
  "is_setter (Write_app_token v) = True"
| "is_setter m = False"

subsection \<open>Reading the events\<close>

text \<open>What a call added to the events: the events of \<open>s'\<close> beyond those of \<open>s\<close>.\<close>

definition events_since :: "state \<Rightarrow> state \<Rightarrow> event list" where
  "events_since s s' = drop (length (events s)) (events s')"

text \<open>A remote request is a call of a method of the Socrata client.\<close>

fun is_remote_request :: "event \<Rightarrow> bool" where
  "is_remote_request (Get c d q r) = True"
| "is_remote_request (GetMetadata c d r) = True"
| "is_remote_request ev = False"

fun request_query :: "event \<Rightarrow> query option" where
  "request_query (Get c d q r) = Some q"
| "request_query ev = None"

fun request_offset :: "event \<Rightarrow> int option" where
  "request_offset (Get c d q r) = q_offset q"
| "request_offset ev = None"

fun request_limit :: "event \<Rightarrow> int option" where
  "request_limit (Get c d q r) = q_limit q"
| "request_limit ev = None"

text \<open>A page request is a \<open>get\<close> that passes an offset: the paging loop's, and no other.\<close>

definition is_page_request :: "event \<Rightarrow> bool" where
  "is_page_request ev = (request_offset ev \<noteq> None)"

definition page_requests :: "event list \<Rightarrow> event list" where
  "page_requests evs = filter is_page_request evs"

text \<open>The offsets of the page requests among some events, in the order they were issued.\<close>

definition page_offsets :: "event list \<Rightarrow> int list" where
  "page_offsets evs = List.map_filter request_offset evs"

text \<open>The rows a \<open>get\<close> returned (none when it raised), and the error a call raised.\<close>

fun reply_rows :: "event \<Rightarrow> row list" where
  "reply_rows (Get c d q (Inr rows)) = rows"
| "reply_rows ev = []"

fun raised :: "event \<Rightarrow> error option" where
  "raised (GetMetadata c d (Inl e)) = Some e"
| "raised (Get c d q (Inl e)) = Some e"
| "raised (FromRecords rows cols (Inl e)) = Some e"
| "raised (Localtime t (Inl e)) = Some e"
| "raised ev = None"

fun is_construction :: "event \<Rightarrow> bool" where
  "is_construction (NewSocrata url tok) = True"
| "is_construction ev = False"

fun is_from_records :: "event \<Rightarrow> bool" where
  "is_from_records (FromRecords rows cols r) = True"
| "is_from_records ev = False"

fun is_getenv :: "event \<Rightarrow> bool" where
  "is_getenv (Getenv name v) = True"
| "is_getenv ev = False"

text \<open>
  \<open>same_instance s s'\<close>: from \<open>s\<close> to \<open>s'\<close> both fields kept their values, the events
  were only extended, and no client was built.  \<open>constructions s\<close> are the clients
  built so far, and \<open>construction_of\<close> the one construction that a cached handle
  stands for.
\<close>

definition same_instance :: "state \<Rightarrow> state \<Rightarrow> bool" where
  "same_instance s s' =
     (self_app_token s' = self_app_token s \<and> self_client s' = self_client s
      \<and> take (length (events s)) (events s') = events s
      \<and> filter is_construction (events_since s s') = [])"

fun construction_of :: "handle option \<Rightarrow> event list" where
  "construction_of None = []"
| "construction_of (Some (Socrata url tok)) = [NewSocrata url tok]"

definition constructions :: "state \<Rightarrow> event list" where
  "constructions s = filter is_construction (events s)"

text \<open>
  The answer to the count query that \<open>get_dataset_count\<close> issues from state \<open>s\<close>, and the
  number a string of decimal digits denotes.
\<close>

definition count_reply :: "host \<Rightarrow> string \<Rightarrow> state \<Rightarrow> error + row list" where
  "count_reply h d s = get_reply h (events (snd (client s))) (fst (client s)) d count_query"

definition decimal :: "string \<Rightarrow> int" where
  "decimal s = foldl (\<lambda>a c. 10 * a + digit_val c) 0 s"

subsection \<open>Example hosts\<close>

text \<open>
  Concrete hosts on which the theorems below are run.  \<open>paging_host cnt page\<close> answers a
  count query with the single row \<open>{count: cnt}\<close> and a request at offset \<open>k\<close> with
  \<open>page k\<close>.  \<open>full_host\<close> holds 250000 rows and serves them in full windows;
  \<open>short_host\<close> announces 250000 rows and serves two rows per request;
  \<open>failing_host\<close> raises on the request at offset 100000.
\<close>

definition sample_row :: row where
  "sample_row = [(''date'', JStr ''2017-03-01''), (''action'', JStr ''issued'')]"

definition paging_host :: "json \<Rightarrow> (int \<Rightarrow> error + row list) \<Rightarrow> host" where
  "paging_host cnt page =
     \<lparr>environ = (\<lambda>name. None),
      int_max_str_digits = 4300,
      get_reply = (\<lambda>evs c d q.
        case q_select q of
          Some sel \<Rightarrow> Inr [[(''count'', cnt)]]
        | None \<Rightarrow> (case q_offset q of None \<Rightarrow> page 0 | Some k \<Rightarrow> page k)),
      get_metadata_reply = (\<lambda>evs c d. Inr [(''rowsUpdatedAt'', JInt 1488326400)]),
      from_records_reply = (\<lambda>evs rows cols. Inr (DataFrame cols [])),
      localtime_reply = (\<lambda>evs t. Inr (StructTime 2017 3 1 0 0 0 2 60 0))\<rparr>"

definition full_host :: host where
  "full_host =
     paging_host (JStr ''250000'')
       (\<lambda>k. Inr (replicate (nat (min 100000 (250000 - k))) sample_row))"

definition short_host :: host where
  "short_host =
     paging_host (JStr ''250000'')
       (\<lambda>k. Inr [[(''offset'', JInt k), (''i'', JInt 0)], [(''offset'', JInt k), (''i'', JInt 1)]])"

definition failing_host :: host where
  "failing_host =
     paging_host (JStr ''250000'')
       (\<lambda>k. if k = 100000 then Inl (OtherError ''HTTPError'')
            else Inr [[(''offset'', JInt k)]])"

text \<open>
  \<open>const_host r\<close> answers every \<open>get\<close> with \<open>r\<close>: \<open>empty_host\<close> with no row at all,
  \<open>down_host\<close> with an HTTP error.  \<open>env_host\<close> has the environment variable set.
\<close>

definition const_host :: "error + row list \<Rightarrow> host" where
  "const_host r =
     \<lparr>environ = (\<lambda>name. None),
      int_max_str_digits = 4300,
      get_reply = (\<lambda>evs c d q. r),
      get_metadata_reply = (\<lambda>evs c d. Inr []),
      from_records_reply = (\<lambda>evs rows cols. Inr (DataFrame cols [])),
      localtime_reply = (\<lambda>evs t. Inl TypeError)\<rparr>"

definition empty_host :: host where
  "empty_host = const_host (Inr [])"

definition down_host :: host where
  "down_host = const_host (Inl (OtherError ''HTTPError''))"

definition env_host :: host where
  "env_host = (const_host (Inr []))\<lparr>environ := [''WSLCB_APP_TOKEN'' \<mapsto> ''secret'']\<rparr>"

text \<open>\<open>words_host\<close> answers the count query with a count that is no number.\<close>

definition words_host :: host where
  "words_host = paging_host (JStr ''n/a'') (\<lambda>k. Inr [])"

section \<open>Lemmas about the model\<close>

subsection \<open>The lazy client\<close>

lemma client_cached: "self_client s = Some c \<Longrightarrow> client s = (c, s)"
  by (simp add: client_def)

lemma client_fresh:
  "self_client s = None \<Longrightarrow>
   client s = (Socrata WSLCB_PORTAL_URL (self_app_token s),
               s\<lparr>self_client := Some (Socrata WSLCB_PORTAL_URL (self_app_token s)),
                 events := events s @ [NewSocrata WSLCB_PORTAL_URL (self_app_token s)]\<rparr>)"
  by (simp add: client_def app_token_def Let_def)

lemma client_sets: "self_client (snd (client s)) = Some (fst (client s))"
  by (cases "self_client s") (simp_all add: client_cached client_fresh)

lemma client_token: "self_app_token (snd (client s)) = self_app_token s"
  by (cases "self_client s") (simp_all add: client_cached client_fresh)

subsection \<open>The paging loop\<close>

lemma fetch_pages_char:
  assumes "self_client s = Some c"
    and "fetch_pages h d ob lm offs ds s = (res, s')"
  shows "\<exists>pes. events s' = events s @ pes
      \<and> self_app_token s' = self_app_token s \<and> self_client s' = self_client s
      \<and> length pes \<le> length offs
      \<and> map request_query pes = map (\<lambda>k. Some (page_query ob k lm)) (take (length pes) offs)
      \<and> (\<forall>ev \<in> set pes. \<exists>q r. ev = Get c d q r)
      \<and> (case res of
           Inr rows \<Rightarrow> length pes = length offs \<and> rows = ds @ concat (map reply_rows pes)
                        \<and> (\<forall>ev \<in> set pes. raised ev = None)
         | Inl e \<Rightarrow> pes \<noteq> [] \<and> raised (last pes) = Some e
                        \<and> (\<forall>ev \<in> set (butlast pes). raised ev = None))"
  using assms
proof (induction offs arbitrary: ds s)
  case Nil
  then show ?case by auto
next
  case (Cons k ks)
  let ?q = "page_query ob k lm"
  let ?r = "get_reply h (events s) c d ?q"
  let ?ev = "Get c d ?q ?r"
  let ?s2 = "s\<lparr>events := events s @ [?ev]\<rparr>"
  show ?case
  proof (cases ?r)
    case (Inl e)
    with Cons.prems have "res = Inl e" "s' = ?s2"
      by (auto simp add: client_cached socrata_get_def Let_def)
    then show ?thesis using Inl
      by (intro exI[of _ "[?ev]"]) simp
  next
    case (Inr page)
    with Cons.prems have run: "fetch_pages h d ob lm ks (ds @ page) ?s2 = (res, s')"
      by (auto simp add: client_cached socrata_get_def Let_def)
    have c2: "self_client ?s2 = Some c" using Cons.prems by simp
    from Cons.IH[OF c2 run] obtain pes where
      pes: "events s' = events ?s2 @ pes"
        "self_app_token s' = self_app_token ?s2" "self_client s' = self_client ?s2"
        "length pes \<le> length ks"
        "map request_query pes = map (\<lambda>k. Some (page_query ob k lm)) (take (length pes) ks)"
        "\<forall>ev \<in> set pes. \<exists>q r. ev = Get c d q r"
        "(case res of
           Inr rows \<Rightarrow> length pes = length ks \<and> rows = (ds @ page) @ concat (map reply_rows pes)
                        \<and> (\<forall>ev \<in> set pes. raised ev = None)
         | Inl e \<Rightarrow> pes \<noteq> [] \<and> raised (last pes) = Some e
                        \<and> (\<forall>ev \<in> set (butlast pes). raised ev = None))"
      by blast
    show ?thesis
      using pes Inr
      by (intro exI[of _ "?ev # pes"]) (auto split: sum.splits)
  qed
qed

lemma request_query_fields:
  "request_query ev = Some q \<Longrightarrow> request_offset ev = q_offset q \<and> request_limit ev = q_limit q"
  by (cases ev) auto

lemma events_since_append: "events s' = events s @ evs \<Longrightarrow> events_since s s' = evs"
  by (simp add: events_since_def)

lemma client_events_ex: "\<exists>evs. events (snd (client s)) = events s @ evs \<and> page_requests evs = []
   \<and> filter is_remote_request evs = [] \<and> length (filter is_construction evs) = (if self_client s = None then 1 else 0)
   \<and> filter is_from_records evs = []"
  by (cases "self_client s"; simp add: client_cached client_fresh page_requests_def is_page_request_def)

lemma get_dataset_count_char:
  assumes "get_dataset_count h d s = (res, s1)"
  shows "\<exists>c s0 r. client s = (c, s0)
      \<and> r = get_reply h (events s0) c d count_query
      \<and> s1 = s0\<lparr>events := events s0 @ [Get c d count_query r]\<rparr>
      \<and> res = (case r of
                 Inl e \<Rightarrow> Inl e
               | Inr [] \<Rightarrow> Inl IndexError
               | Inr (row # _) \<Rightarrow>
                   (case map_of row ''count'' of
                      None \<Rightarrow> Inl (KeyError ''count'')
                    | Some v \<Rightarrow> py_int (int_max_str_digits h) v))"
  using assms
  by (auto simp add: get_dataset_count_def socrata_get_def Let_def
      split: prod.splits sum.splits list.splits option.splits)

lemma get_dataset_count_frame:
  assumes "get_dataset_count h d s = (res, s1)"
  shows "self_client s1 = Some (fst (client s))"
    and "self_app_token s1 = self_app_token s"
    and "page_requests (events_since s s1) = []"
    and "\<exists>evs. events s1 = events s @ evs \<and> page_requests evs = []"
proof -
  from get_dataset_count_char[OF assms] obtain c s0 r where
    *: "client s = (c, s0)" "s1 = s0\<lparr>events := events s0 @ [Get c d count_query r]\<rparr>"
    by blast
  from * client_sets[of s] show "self_client s1 = Some (fst (client s))" by simp
  from * client_token[of s] show "self_app_token s1 = self_app_token s" by simp
  from client_events_ex[of s] * obtain evs where
    evs: "events s0 = events s @ evs" "page_requests evs = []" by auto
  have pq: "page_requests (evs @ [Get c d count_query r]) = []"
    using evs(2) by (simp add: page_requests_def is_page_request_def count_query_def)
  from * evs have e1: "events s1 = events s @ (evs @ [Get c d count_query r])" by simp
  from events_since_append[OF e1] pq show "page_requests (events_since s s1) = []" by simp
  from e1 pq show "\<exists>evs. events s1 = events s @ evs \<and> page_requests evs = []" by blast
qed

lemma page_events_are_pages:
  assumes "map request_query pes = map (\<lambda>k. Some (page_query ob k lm)) ks"
  shows "page_requests pes = pes" and "page_offsets pes = ks"
    and "\<forall>ev \<in> set pes. request_limit ev = Some lm"
    and "map request_offset pes = map Some ks"
proof -
  have len: "length pes = length ks" using assms by (metis length_map)
  have nth: "\<And>i. i < length pes \<Longrightarrow> request_query (pes ! i) = Some (page_query ob (ks ! i) lm)"
    using assms len by (metis nth_map)
  have off: "\<And>i. i < length pes \<Longrightarrow> request_offset (pes ! i) = Some (ks ! i)"
    using nth request_query_fields by (fastforce simp add: page_query_def)
  have lim: "\<And>i. i < length pes \<Longrightarrow> request_limit (pes ! i) = Some lm"
    using nth request_query_fields by (fastforce simp add: page_query_def)
  show "\<forall>ev \<in> set pes. request_limit ev = Some lm"
    using lim by (auto simp add: in_set_conv_nth)
  show m: "map request_offset pes = map Some ks"
    using off len by (simp add: list_eq_iff_nth_eq)
  have "\<forall>ev \<in> set pes. is_page_request ev"
    using off by (auto simp add: in_set_conv_nth is_page_request_def)
  then show "page_requests pes = pes" by (simp add: page_requests_def)
  have "\<And>xs. List.map_filter id (map Some xs) = xs"
    by (simp add: List.map_filter_def comp_def)
  moreover have "page_offsets pes = List.map_filter id (map request_offset pes)"
    by (simp add: page_offsets_def List.map_filter_def comp_def filter_map)
  ultimately show "page_offsets pes = ks" using m by simp
qed

subsection \<open>The range of offsets\<close>

lemma py_range_Nil: "\<not> start < stop \<Longrightarrow> py_range start stop step = []"
  by (simp add: py_range.simps)

lemma py_range_Cons:
  "0 < step \<Longrightarrow> start < stop \<Longrightarrow>
   py_range start stop step = start # py_range (start + step) stop step"
  by (subst py_range.simps) simp

lemma py_range_bounds:
  "k \<in> set (py_range start stop step) \<Longrightarrow> start \<le> k \<and> k < stop"
proof (induction start stop step rule: py_range.induct)
  case (1 start stop step)
  show ?case
  proof (cases "0 < step \<and> start < stop")
    case True
    then have "py_range start stop step = start # py_range (start + step) stop step"
      by (simp add: py_range_Cons)
    with 1 True show ?thesis by auto
  next
    case False
    then have "py_range start stop step = []" by (subst py_range.simps) simp
    with 1 show ?thesis by simp
  qed
qed

lemma py_range_ascending: "sorted_wrt (<) (py_range start stop step)"
proof (induction start stop step rule: py_range.induct)
  case (1 start stop step)
  show ?case
  proof (cases "0 < step \<and> start < stop")
    case True
    then have eq: "py_range start stop step = start # py_range (start + step) stop step"
      by (simp add: py_range_Cons)
    have "\<forall>k \<in> set (py_range (start + step) stop step). start < k"
      using py_range_bounds[of _ "start + step" stop step] True by fastforce
    with 1 True eq show ?thesis by simp
  next
    case False
    then have "py_range start stop step = []" by (subst py_range.simps) simp
    then show ?thesis by simp
  qed
qed

lemma py_range_length:
  "0 < step \<Longrightarrow> length (py_range start stop step) = nat ((stop - start + step - 1) div step)"
proof (induction start stop step rule: py_range.induct)
  case (1 start stop step)
  show ?case
  proof (cases "start < stop")
    case True
    with 1 have eq: "py_range start stop step = start # py_range (start + step) stop step"
      by (simp add: py_range_Cons)
    have ih: "length (py_range (start + step) stop step)
               = nat ((stop - (start + step) + step - 1) div step)"
      using 1 True by simp
    have "(stop - (start + step) + step - 1 + step) div step
            = (stop - (start + step) + step - 1) div step + 1"
      using 1(2) by simp
    moreover have "stop - start + step - 1 = stop - (start + step) + step - 1 + step" by simp
    ultimately
    have "(stop - start + step - 1) div step = (stop - (start + step) + step - 1) div step + 1"
      by (simp only:)
    moreover have "0 \<le> (stop - (start + step) + step - 1) div step"
      using True 1(2) by (simp add: pos_imp_zdiv_nonneg_iff)
    ultimately show ?thesis using eq ih by (simp add: nat_add_distrib)
  next
    case False
    then have "py_range start stop step = []" by (simp add: py_range_Nil)
    moreover have "(stop - start + step - 1) div step \<le> (step - 1) div step"
      using False 1(2) by (intro zdiv_mono1) simp_all
    then have "(stop - start + step - 1) div step \<le> 0"
      using 1(2) by simp
    ultimately show ?thesis by simp
  qed
qed

lemma py_range_nth:
  "0 < step \<Longrightarrow> i < length (py_range start stop step) \<Longrightarrow>
   py_range start stop step ! i = start + int i * step"
proof (induction start stop step arbitrary: i rule: py_range.induct)
  case (1 start stop step)
  show ?case
  proof (cases "start < stop")
    case True
    with 1 have eq: "py_range start stop step = start # py_range (start + step) stop step"
      by (simp add: py_range_Cons)
    show ?thesis
    proof (cases i)
      case 0
      then show ?thesis using eq by simp
    next
      case (Suc j)
      with 1(3) eq have "j < length (py_range (start + step) stop step)" by simp
      with 1(1)[of j] 1(2) True
      have "py_range (start + step) stop step ! j = start + step + int j * step" by simp
      with Suc eq show ?thesis by (simp add: algebra_simps)
    qed
  next
    case False
    then have "py_range start stop step = []" by (simp add: py_range_Nil)
    with 1 show ?thesis by simp
  qed
qed

lemma ceiling_div:
  assumes p: "(0::int) < p"
  shows "\<lceil>real_of_int n / real_of_int p\<rceil> = (n + p - 1) div p"
proof -
  have a: "\<lceil>real_of_int n / real_of_int p\<rceil> = - (- n div p)"
    by (simp add: ceiling_divide_eq_div)
  have n: "n = p * (n div p) + n mod p" by simp
  have r: "0 \<le> n mod p" "n mod p < p" using p by simp_all
  have "- (- n div p) = (n + p - 1) div p"
  proof (cases "n mod p = 0")
    case True
    then have "- (- n div p) = n div p" using p by (simp add: zdiv_zminus1_eq_if)
    moreover have "n + p - 1 = p * (n div p) + (p - 1)" using n True by simp
    then have "(n + p - 1) div p = n div p"
      using p int_div_pos_eq[of "n + p - 1" p "n div p" "p - 1"] by simp
    ultimately show ?thesis by simp
  next
    case False
    then have "- (- n div p) = n div p + 1" using p by (simp add: zdiv_zminus1_eq_if)
    moreover have "n + p - 1 = p * (n div p + 1) + (n mod p - 1)"
      using n by (simp add: algebra_simps)
    then have "(n + p - 1) div p = n div p + 1"
      using r False int_div_pos_eq[of "n + p - 1" p "n div p + 1" "n mod p - 1"] by simp
    ultimately show ?thesis by simp
  qed
  with a show ?thesis by simp
qed

lemma py_range_rows:
  "0 < step \<Longrightarrow>
   sum_list (map (\<lambda>k. nat (min step (stop - k))) (py_range start stop step)) = nat (stop - start)"
proof (induction start stop step rule: py_range.induct)
  case (1 start stop step)
  show ?case
  proof (cases "start < stop")
    case True
    with 1 have eq: "py_range start stop step = start # py_range (start + step) stop step"
      by (simp add: py_range_Cons)
    have ih: "sum_list (map (\<lambda>k. nat (min step (stop - k))) (py_range (start + step) stop step))
              = nat (stop - (start + step))"
      using 1 True by simp
    show ?thesis using eq ih True 1(2) by (simp add: min_def nat_add_distrib[symmetric])
  next
    case False
    then have "py_range start stop step = []" by (simp add: py_range_Nil)
    with False show ?thesis by simp
  qed
qed

lemma page_offsets_page_requests: "page_offsets (page_requests evs) = page_offsets evs"
  by (simp add: page_offsets_def page_requests_def is_page_request_def List.map_filter_def)

lemma page_requests_append: "page_requests (xs @ ys) = page_requests xs @ page_requests ys"
  by (simp add: page_requests_def)

lemma get_entire_dataset_char:
  assumes run: "get_entire_dataset h d ob s = (res, s')"
  defines "pes \<equiv> page_requests (events_since s s')"
  shows "(\<exists>e. fst (get_dataset_count h d s) = Inl e \<and> res = Inl e \<and> pes = []
              \<and> s' = snd (get_dataset_count h d s))
       \<or> (\<exists>N. fst (get_dataset_count h d s) = Inr N
              \<and> events s' = events (snd (get_dataset_count h d s)) @ pes
              \<and> self_app_token s' = self_app_token s
              \<and> self_client s' = Some (fst (client s))
              \<and> map request_query pes
                   = map (\<lambda>k. Some (page_query ob k 100000))
                       (take (length pes) (py_range 0 N 100000))
              \<and> (case res of
                    Inr rows \<Rightarrow> length pes = length (py_range 0 N 100000)
                                 \<and> rows = concat (map reply_rows pes)
                                 \<and> (\<forall>ev \<in> set pes. raised ev = None)
                  | Inl e \<Rightarrow> pes \<noteq> [] \<and> raised (last pes) = Some e
                                 \<and> (\<forall>ev \<in> set (butlast pes). raised ev = None)))"
proof -
  obtain cres s1 where cnt: "get_dataset_count h d s = (cres, s1)" by (cases "get_dataset_count h d s")
  note fr = get_dataset_count_frame[OF cnt]
  show ?thesis
  proof (cases cres)
    case (Inl e)
    with run cnt have "res = Inl e" "s' = s1" by (simp_all add: get_entire_dataset_def)
    with fr(3) cnt Inl show ?thesis by (simp add: pes_def)
  next
    case (Inr N)
    let ?offs = "py_range 0 N 100000"
    from run cnt Inr have fp: "fetch_pages h d ob 100000 ?offs [] s1 = (res, s')"
      by (simp add: get_entire_dataset_def)
    from fetch_pages_char[OF fr(1) fp] obtain pes0 where
      p0: "events s' = events s1 @ pes0"
        "self_app_token s' = self_app_token s1" "self_client s' = self_client s1"
        "map request_query pes0 = map (\<lambda>k. Some (page_query ob k 100000)) (take (length pes0) ?offs)"
        "(case res of
           Inr rows \<Rightarrow> length pes0 = length ?offs \<and> rows = [] @ concat (map reply_rows pes0)
                        \<and> (\<forall>ev \<in> set pes0. raised ev = None)
         | Inl e \<Rightarrow> pes0 \<noteq> [] \<and> raised (last pes0) = Some e
                        \<and> (\<forall>ev \<in> set (butlast pes0). raised ev = None))"
      by blast
    from fr(4) obtain evs where evs: "events s1 = events s @ evs" "page_requests evs = []"
      by blast
    have "events s' = events s @ (evs @ pes0)" using p0(1) evs(1) by simp
    then have "events_since s s' = evs @ pes0" by (rule events_since_append)
    then have "pes = page_requests pes0"
      using evs(2) by (simp add: pes_def page_requests_append)
    with page_events_are_pages(1)[OF p0(4)] have pes: "pes = pes0" by simp
    have "(\<exists>N. fst (get_dataset_count h d s) = Inr N
              \<and> events s' = events (snd (get_dataset_count h d s)) @ pes
              \<and> self_app_token s' = self_app_token s
              \<and> self_client s' = Some (fst (client s))
              \<and> map request_query pes
                   = map (\<lambda>k. Some (page_query ob k 100000))
                       (take (length pes) (py_range 0 N 100000))
              \<and> (case res of
                    Inr rows \<Rightarrow> length pes = length (py_range 0 N 100000)
                                 \<and> rows = concat (map reply_rows pes)
                                 \<and> (\<forall>ev \<in> set pes. raised ev = None)
                  | Inl e \<Rightarrow> pes \<noteq> [] \<and> raised (last pes) = Some e
                                 \<and> (\<forall>ev \<in> set (butlast pes). raised ev = None)))"
      apply (rule exI[of _ N])
      using cnt Inr p0 fr(1,2) unfolding pes by (auto split: sum.splits)
    then show ?thesis by (rule disjI2)
  qed
qed

lemma py_range_closed:
  "0 < step \<Longrightarrow> py_range 0 stop step
     = map (\<lambda>i. int i * step) [0..<nat \<lceil>real_of_int stop / real_of_int step\<rceil>]"
proof -
  assume p: "0 < step"
  have len: "length (py_range 0 stop step) = nat \<lceil>real_of_int stop / real_of_int step\<rceil>"
    using p py_range_length[of step 0 stop] by (simp add: ceiling_div)
  show ?thesis
    using p len py_range_nth[of step _ 0 stop]
    by (simp add: list_eq_iff_nth_eq)
qed

lemma filter_distinct_one:
  "distinct (map f xs) \<Longrightarrow> x \<in> set xs \<Longrightarrow> length (filter (\<lambda>y. f y = f x) xs) = 1"
proof (induction xs)
  case Nil
  then show ?case by simp
next
  case (Cons a xs)
  show ?case
  proof (cases "f a = f x")
    case True
    then have "f x \<notin> f ` set xs" using Cons.prems(1) by simp
    then have "\<forall>y \<in> set xs. f y \<noteq> f x" by (metis imageI)
    then have "filter (\<lambda>y. f y = f x) xs = []" by (simp add: filter_empty_conv)
    with True show ?thesis by simp
  next
    case False
    with Cons show ?thesis by auto
  qed
qed

subsection \<open>Runs on the example hosts\<close>

lemmas run_defs =
  get_entire_dataset_def get_dataset_count_def get_dataset_def client_def app_token_def
  socrata_get_def count_query_def page_query_def init_def getenv_def paging_host_def
  WSLCB_PORTAL_URL_def

lemma int_of_str_250000: "int_of_str 4300 ''250000'' = Inr 250000"
  by (simp add: int_of_str_def strip_def is_space_def unsigned_value_def is_digit_def digit_val_def)

lemma py_range_250000: "py_range 0 250000 100000 = [0, 100000, 200000]"
  by (simp add: py_range.simps)

lemma full_host_run:
  "get_entire_dataset full_host ''3qmf-vgdg'' ''date'' (init full_host ''t'')
   = (Inr (replicate 100000 sample_row @ replicate 100000 sample_row @ replicate 50000 sample_row),
      \<lparr>self_app_token = ''t'',
       self_client = Some (Socrata ''data.lcb.wa.gov'' ''t''),
       events =
         [NewSocrata ''data.lcb.wa.gov'' ''t'',
          Get (Socrata ''data.lcb.wa.gov'' ''t'') ''3qmf-vgdg'' count_query
            (Inr [[(''count'', JStr ''250000'')]]),
          Get (Socrata ''data.lcb.wa.gov'' ''t'') ''3qmf-vgdg'' (page_query ''date'' 0 100000)
            (Inr (replicate 100000 sample_row)),
          Get (Socrata ''data.lcb.wa.gov'' ''t'') ''3qmf-vgdg'' (page_query ''date'' 100000 100000)
            (Inr (replicate 100000 sample_row)),
          Get (Socrata ''data.lcb.wa.gov'' ''t'') ''3qmf-vgdg'' (page_query ''date'' 200000 100000)
            (Inr (replicate 50000 sample_row))]\<rparr>)"
  by (simp add: run_defs full_host_def int_of_str_250000 py_range_250000 Let_def)

section \<open>The paginated fetch\<close>

lemma failing_host_events:
  "events_since (init failing_host ''t'')
     (snd (get_entire_dataset failing_host ''3qmf-vgdg'' ''date'' (init failing_host ''t'')))
   = [NewSocrata ''data.lcb.wa.gov'' ''t'',
      Get (Socrata ''data.lcb.wa.gov'' ''t'') ''3qmf-vgdg'' count_query
        (Inr [[(''count'', JStr ''250000'')]]),
      Get (Socrata ''data.lcb.wa.gov'' ''t'') ''3qmf-vgdg'' (page_query ''date'' 0 100000)
        (Inr [[(''offset'', JInt 0)]]),
      Get (Socrata ''data.lcb.wa.gov'' ''t'') ''3qmf-vgdg'' (page_query ''date'' 100000 100000)
        (Inl (OtherError ''HTTPError''))]"
  by (simp add: run_defs failing_host_def int_of_str_250000 py_range_250000 Let_def
      events_since_def)

text \<open>
  C1 as stated fails: it counts \<open>\<lceil>N / 100000\<rceil>\<close> page requests for every run, but the loop
  stops at the first request that raises.  Here the count is 250000 and the request at
  offset 100000 raises: two page requests are issued, not three.
\<close>

theorem get_entire_dataset_page_requests_counterexample:
  "fst (get_dataset_count failing_host ''3qmf-vgdg'' (init failing_host ''t'')) = Inr 250000
   \<and> nat \<lceil>real_of_int 250000 / 100000\<rceil> = 3
   \<and> length (page_requests (events_since (init failing_host ''t'')
        (snd (get_entire_dataset failing_host ''3qmf-vgdg'' ''date'' (init failing_host ''t'')))))
       = 2
   \<and> page_offsets (events_since (init failing_host ''t'')
        (snd (get_entire_dataset failing_host ''3qmf-vgdg'' ''date'' (init failing_host ''t''))))
       = [0, 100000]
   \<and> fst (get_entire_dataset failing_host ''3qmf-vgdg'' ''date'' (init failing_host ''t''))
       = Inl (OtherError ''HTTPError'')"
proof -
  have count: "fst (get_dataset_count failing_host ''3qmf-vgdg'' (init failing_host ''t''))
                 = Inr 250000"
    by (simp add: run_defs failing_host_def int_of_str_250000 Let_def)
  have three: "nat \<lceil>real_of_int 250000 / 100000\<rceil> = 3" by simp
  have res: "fst (get_entire_dataset failing_host ''3qmf-vgdg'' ''date'' (init failing_host ''t''))
       = Inl (OtherError ''HTTPError'')"
    by (simp add: run_defs failing_host_def int_of_str_250000 py_range_250000 Let_def)
  show ?thesis
    by (simp only: count three res failing_host_events)
       (simp add: page_requests_def is_page_request_def page_offsets_def List.map_filter_def
          page_query_def count_query_def)
qed

text \<open>
  C1, amended.  When the count call returns \<open>N\<close> and no page request raises,
  \<open>get_entire_dataset\<close> issues exactly \<open>\<lceil>N / 100000\<rceil>\<close> page requests, at the offsets 0,
  100000, 200000, ..., strictly ascending and each below \<open>N\<close>, and it returns rows; if
  each page request at offset \<open>k\<close> returned \<open>min 100000 (N - k)\<close> rows, the result has \<open>N\<close>
  rows.  For \<open>N = 0\<close> the result is empty and no page request is issued.  (A count below
  zero gives no request and no row, hence \<open>nat\<close>.)
\<close>

theorem get_entire_dataset_page_requests:
  assumes count: "fst (get_dataset_count h dataset_id s) = Inr N"
    and run: "get_entire_dataset h dataset_id order_by s = (res, s')"
    and ok: "\<forall>ev \<in> set (page_requests (events_since s s')). raised ev = None"
  shows "length (page_requests (events_since s s')) = nat \<lceil>real_of_int N / 100000\<rceil>
       \<and> page_offsets (events_since s s')
           = map (\<lambda>i. int i * 100000) [0..<nat \<lceil>real_of_int N / 100000\<rceil>]
       \<and> sorted_wrt (<) (page_offsets (events_since s s'))
       \<and> (\<forall>k \<in> set (page_offsets (events_since s s')). 0 \<le> k \<and> k < N)
       \<and> (\<exists>rows. res = Inr rows
             \<and> ((\<forall>ev \<in> set (page_requests (events_since s s')). \<forall>k.
                    request_offset ev = Some k \<longrightarrow>
                    int (length (reply_rows ev)) = min 100000 (N - k))
                  \<longrightarrow> length rows = nat N))
       \<and> (N = 0 \<longrightarrow> res = Inr [] \<and> page_requests (events_since s s') = [])"
proof -
  let ?pes = "page_requests (events_since s s')"
  let ?offs = "py_range 0 N 100000"
  from get_entire_dataset_char[OF run] count
  have q: "map request_query ?pes
             = map (\<lambda>k. Some (page_query order_by k 100000)) (take (length ?pes) ?offs)"
    and c: "(case res of
               Inr rows \<Rightarrow> length ?pes = length ?offs \<and> rows = concat (map reply_rows ?pes)
                            \<and> (\<forall>ev \<in> set ?pes. raised ev = None)
             | Inl e \<Rightarrow> ?pes \<noteq> [] \<and> raised (last ?pes) = Some e
                            \<and> (\<forall>ev \<in> set (butlast ?pes). raised ev = None))"
    by auto
  have "\<exists>rows. res = Inr rows"
  proof (cases res)
    case (Inl e)
    with c have "?pes \<noteq> []" "raised (last ?pes) = Some e" by simp_all
    with ok show ?thesis by (metis last_in_set option.distinct(1))
  next
    case (Inr rows)
    then show ?thesis by simp
  qed
  then obtain rows where res: "res = Inr rows" by blast
  with c have len: "length ?pes = length ?offs" and rows: "rows = concat (map reply_rows ?pes)"
    by simp_all
  from q len have q': "map request_query ?pes = map (\<lambda>k. Some (page_query order_by k 100000)) ?offs"
    by simp
  note pg = page_events_are_pages[OF q']
  have offs: "page_offsets (events_since s s') = ?offs"
    using pg(2) by (simp add: page_offsets_page_requests)
  have closed: "?offs = map (\<lambda>i. int i * 100000) [0..<nat \<lceil>real_of_int N / 100000\<rceil>]"
    using py_range_closed[of 100000 N] by simp
  have n: "length ?pes = nat \<lceil>real_of_int N / 100000\<rceil>"
    using len closed by (metis length_map length_upt minus_nat.diff_0)
  have bounds: "\<forall>k \<in> set ?offs. 0 \<le> k \<and> k < N"
    using py_range_bounds by blast
  have rowlen: "length rows = nat N"
    if h: "\<forall>ev \<in> set ?pes. \<forall>k. request_offset ev = Some k \<longrightarrow>
              int (length (reply_rows ev)) = min 100000 (N - k)"
  proof -
    have "map (\<lambda>ev. length (reply_rows ev)) ?pes = map (\<lambda>k. nat (min 100000 (N - k))) ?offs"
    proof (rule nth_equalityI)
      show "length (map (\<lambda>ev. length (reply_rows ev)) ?pes)
              = length (map (\<lambda>k. nat (min 100000 (N - k))) ?offs)"
        using len by simp
    next
      fix i assume "i < length (map (\<lambda>ev. length (reply_rows ev)) ?pes)"
      then have i: "i < length ?pes" by simp
      then have "request_offset (?pes ! i) = Some (?offs ! i)"
        using pg(4) len by (metis nth_map)
      moreover have "?pes ! i \<in> set ?pes" using i by simp
      ultimately have "int (length (reply_rows (?pes ! i))) = min 100000 (N - ?offs ! i)"
        using h by blast
      then have "length (reply_rows (?pes ! i)) = nat (min 100000 (N - ?offs ! i))" by simp
      then show "map (\<lambda>ev. length (reply_rows ev)) ?pes ! i
                   = map (\<lambda>k. nat (min 100000 (N - k))) ?offs ! i"
        using i len by simp
    qed
    then have "length rows = sum_list (map (\<lambda>k. nat (min 100000 (N - k))) ?offs)"
      using rows by (simp add: length_concat comp_def)
    also have "\<dots> = nat (N - 0)" by (rule py_range_rows) simp
    finally show ?thesis by simp
  qed
  have zero: "res = Inr [] \<and> ?pes = []" if "N = 0"
  proof -
    from that have "?offs = []" by (simp add: py_range_Nil)
    with len rows res show ?thesis by simp
  qed
  show ?thesis
    using n offs closed py_range_ascending[of 0 N 100000] bounds res rowlen zero
    by simp
qed

text \<open>The scenario of the specification: 250000 rows, offsets 0, 100000 and 200000.\<close>

theorem get_entire_dataset_page_requests_witness:
  "fst (get_dataset_count full_host ''3qmf-vgdg'' (init full_host ''t'')) = Inr 250000
   \<and> page_offsets (events_since (init full_host ''t'')
         (snd (get_entire_dataset full_host ''3qmf-vgdg'' ''date'' (init full_host ''t''))))
       = [0, 100000, 200000]
   \<and> (\<exists>rows. fst (get_entire_dataset full_host ''3qmf-vgdg'' ''date'' (init full_host ''t''))
                = Inr rows \<and> length rows = 250000)"
proof -
  let ?s = "init full_host ''t''"
  let ?run = "get_entire_dataset full_host ''3qmf-vgdg'' ''date'' ?s"
  have count: "fst (get_dataset_count full_host ''3qmf-vgdg'' ?s) = Inr 250000"
    by (simp add: run_defs full_host_def int_of_str_250000 Let_def)
  have run: "?run = (fst ?run, snd ?run)" by simp
  have pages: "page_requests (events_since ?s (snd ?run))
     = [Get (Socrata ''data.lcb.wa.gov'' ''t'') ''3qmf-vgdg'' (page_query ''date'' 0 100000)
          (Inr (replicate 100000 sample_row)),
        Get (Socrata ''data.lcb.wa.gov'' ''t'') ''3qmf-vgdg'' (page_query ''date'' 100000 100000)
          (Inr (replicate 100000 sample_row)),
        Get (Socrata ''data.lcb.wa.gov'' ''t'') ''3qmf-vgdg'' (page_query ''date'' 200000 100000)
          (Inr (replicate 50000 sample_row))]"
  proof -
    have "events ?s = []" by (simp add: init_def)
    then show ?thesis
      by (simp add: full_host_run events_since_def page_requests_def is_page_request_def
          page_query_def count_query_def)
  qed
  have ok: "\<forall>ev \<in> set (page_requests (events_since ?s (snd ?run))). raised ev = None"
    by (simp add: pages)
  have sizes: "\<forall>ev \<in> set (page_requests (events_since ?s (snd ?run))). \<forall>k.
      request_offset ev = Some k \<longrightarrow> int (length (reply_rows ev)) = min 100000 (250000 - k)"
    by (simp add: pages page_query_def)
  have three: "map (\<lambda>i. int i * 100000) [0..<nat \<lceil>real_of_int 250000 / 100000\<rceil>]
                 = [0, 100000, 200000]"
    by (simp add: upt_rec)
  from get_entire_dataset_page_requests[OF count run ok] sizes three count
  show ?thesis by auto
qed

text \<open>
  C2.  If a page request of \<open>get_entire_dataset\<close> raises \<open>e\<close>, the call raises \<open>e\<close>: the result
  is the error alone, with none of the rows of the earlier pages.  The failed request is
  the last outbound call of the run, and its offset was requested once: nothing is
  retried.
\<close>

theorem get_entire_dataset_fails_with_page:
  assumes run: "get_entire_dataset h dataset_id order_by s = (res, s')"
    and ev: "ev \<in> set (page_requests (events_since s s'))"
    and err: "raised ev = Some e"
  shows "res = Inl e
       \<and> events s' \<noteq> [] \<and> last (events s') = ev
       \<and> length (filter (\<lambda>x. request_offset x = request_offset ev)
                   (page_requests (events_since s s'))) = 1
       \<and> self_app_token s' = self_app_token s"
proof -
  let ?pes = "page_requests (events_since s s')"
  from get_entire_dataset_char[OF run] ev obtain N where
    ev_s: "events s' = events (snd (get_dataset_count h dataset_id s)) @ ?pes"
    and tok: "self_app_token s' = self_app_token s"
    and q: "map request_query ?pes
             = map (\<lambda>k. Some (page_query order_by k 100000))
                 (take (length ?pes) (py_range 0 N 100000))"
    and c: "(case res of
               Inr rows \<Rightarrow> length ?pes = length (py_range 0 N 100000)
                            \<and> rows = concat (map reply_rows ?pes)
                            \<and> (\<forall>ev \<in> set ?pes. raised ev = None)
             | Inl e \<Rightarrow> ?pes \<noteq> [] \<and> raised (last ?pes) = Some e
                            \<and> (\<forall>ev \<in> set (butlast ?pes). raised ev = None))"
    by auto
  obtain e' where res: "res = Inl e'"
    using c ev err by (cases res) auto
  with c have ne: "?pes \<noteq> []" and l: "raised (last ?pes) = Some e'"
    and b: "\<forall>ev \<in> set (butlast ?pes). raised ev = None" by simp_all
  have "ev \<in> set (butlast ?pes) \<or> ev = last ?pes"
    using ev ne by (metis Un_iff append_butlast_last_id empty_iff insert_iff list.set(1) list.set(2) set_append)
  with b err have last: "ev = last ?pes" by auto
  with l err have "e' = e" by simp
  have "distinct (take (length ?pes) (py_range 0 N 100000))"
    using py_range_ascending[of 0 N 100000]
    by (intro distinct_take) (simp add: strict_sorted_iff)
  then have "distinct (map Some (take (length ?pes) (py_range 0 N 100000)))"
    by (simp add: distinct_map)
  then have "distinct (map request_offset ?pes)"
    using page_events_are_pages(4)[OF q] by simp
  then have once: "length (filter (\<lambda>x. request_offset x = request_offset ev) ?pes) = 1"
    using ev by (rule filter_distinct_one)
  from ev_s ne last have "events s' \<noteq> []" "last (events s') = ev" by simp_all
  with res \<open>e' = e\<close> once tok show ?thesis by simp
qed

text \<open>The request at offset 100000 raises: two page requests, the error comes back.\<close>

theorem get_entire_dataset_fails_with_page_witness:
  "fst (get_entire_dataset failing_host ''3qmf-vgdg'' ''date'' (init failing_host ''t''))
     = Inl (OtherError ''HTTPError'')
   \<and> page_offsets (events_since (init failing_host ''t'')
         (snd (get_entire_dataset failing_host ''3qmf-vgdg'' ''date'' (init failing_host ''t''))))
       = [0, 100000]"
proof -
  let ?s = "init failing_host ''t''"
  let ?run = "get_entire_dataset failing_host ''3qmf-vgdg'' ''date'' ?s"
  let ?ev = "Get (Socrata ''data.lcb.wa.gov'' ''t'') ''3qmf-vgdg''
               (page_query ''date'' 100000 100000) (Inl (OtherError ''HTTPError''))"
  have run: "?run = (fst ?run, snd ?run)" by simp
  have evs: "events_since ?s (snd ?run)
     = [NewSocrata ''data.lcb.wa.gov'' ''t'',
        Get (Socrata ''data.lcb.wa.gov'' ''t'') ''3qmf-vgdg'' count_query
          (Inr [[(''count'', JStr ''250000'')]]),
        Get (Socrata ''data.lcb.wa.gov'' ''t'') ''3qmf-vgdg'' (page_query ''date'' 0 100000)
          (Inr [[(''offset'', JInt 0)]]),
        ?ev]"
    by (simp add: run_defs failing_host_def int_of_str_250000 py_range_250000 Let_def
        events_since_def)
  have ev: "?ev \<in> set (page_requests (events_since ?s (snd ?run)))"
    by (simp add: evs page_requests_def is_page_request_def page_query_def)
  have err: "raised ?ev = Some (OtherError ''HTTPError'')" by simp
  from get_entire_dataset_fails_with_page[OF run ev err]
  show ?thesis
    by (simp add: evs page_offsets_def List.map_filter_def page_query_def count_query_def)
qed

lemma short_host_run:
  "get_entire_dataset short_host ''3qmf-vgdg'' ''date'' (init short_host ''t'')
   = (Inr [[(''offset'', JInt 0), (''i'', JInt 0)], [(''offset'', JInt 0), (''i'', JInt 1)],
           [(''offset'', JInt 100000), (''i'', JInt 0)], [(''offset'', JInt 100000), (''i'', JInt 1)],
           [(''offset'', JInt 200000), (''i'', JInt 0)], [(''offset'', JInt 200000), (''i'', JInt 1)]],
      \<lparr>self_app_token = ''t'',
       self_client = Some (Socrata ''data.lcb.wa.gov'' ''t''),
       events =
         [NewSocrata ''data.lcb.wa.gov'' ''t'',
          Get (Socrata ''data.lcb.wa.gov'' ''t'') ''3qmf-vgdg'' count_query
            (Inr [[(''count'', JStr ''250000'')]]),
          Get (Socrata ''data.lcb.wa.gov'' ''t'') ''3qmf-vgdg'' (page_query ''date'' 0 100000)
            (Inr [[(''offset'', JInt 0), (''i'', JInt 0)], [(''offset'', JInt 0), (''i'', JInt 1)]]),
          Get (Socrata ''data.lcb.wa.gov'' ''t'') ''3qmf-vgdg'' (page_query ''date'' 100000 100000)
            (Inr [[(''offset'', JInt 100000), (''i'', JInt 0)],
                  [(''offset'', JInt 100000), (''i'', JInt 1)]]),
          Get (Socrata ''data.lcb.wa.gov'' ''t'') ''3qmf-vgdg'' (page_query ''date'' 200000 100000)
            (Inr [[(''offset'', JInt 200000), (''i'', JInt 0)],
                  [(''offset'', JInt 200000), (''i'', JInt 1)]])]\<rparr>)"
  by (simp add: run_defs short_host_def int_of_str_250000 py_range_250000 Let_def)

lemma init_events: "tok \<noteq> '''' \<Longrightarrow> events (init h tok) = []"
  by (simp add: init_def)

lemma fetch_pages_replies:
  assumes "self_client s = Some c"
    and "fetch_pages h d ob lm offs ds s = (res, s')"
  shows "\<forall>i < length (events_since s s').
           events_since s s' ! i =
             Get c d (page_query ob (offs ! i) lm)
               (get_reply h (events s @ take i (events_since s s')) c d
                  (page_query ob (offs ! i) lm))"
  using assms
proof (induction offs arbitrary: ds s)
  case Nil
  then show ?case by (auto simp add: events_since_def)
next
  case (Cons k ks)
  let ?q = "page_query ob k lm"
  let ?ev = "Get c d ?q (get_reply h (events s) c d ?q)"
  let ?s2 = "s\<lparr>events := events s @ [?ev]\<rparr>"
  show ?case
  proof (cases "get_reply h (events s) c d ?q")
    case (Inl e)
    with Cons.prems have "s' = ?s2"
      by (auto simp add: client_cached socrata_get_def Let_def)
    then have "events_since s s' = [?ev]" by (simp add: events_since_def)
    then show ?thesis by simp
  next
    case (Inr page)
    with Cons.prems have run: "fetch_pages h d ob lm ks (ds @ page) ?s2 = (res, s')"
      by (auto simp add: client_cached socrata_get_def Let_def)
    have c2: "self_client ?s2 = Some c" using Cons.prems by simp
    from fetch_pages_char[OF c2 run] obtain pes where pes: "events s' = events ?s2 @ pes"
      by blast
    then have since2: "events_since ?s2 s' = pes" by (rule events_since_append)
    from pes have "events s' = events s @ (?ev # pes)" by simp
    then have since: "events_since s s' = ?ev # pes" by (rule events_since_append)
    note ih = Cons.IH[OF c2 run, unfolded since2]
    show ?thesis
    proof (intro allI impI)
      fix i assume i: "i < length (events_since s s')"
      show "events_since s s' ! i =
             Get c d (page_query ob ((k # ks) ! i) lm)
               (get_reply h (events s @ take i (events_since s s')) c d
                  (page_query ob ((k # ks) ! i) lm))"
      proof (cases i)
        case 0
        then show ?thesis by (simp add: since)
      next
        case (Suc j)
        with i since have j: "j < length pes" by simp
        from ih j have "pes ! j = Get c d (page_query ob (ks ! j) lm)
               (get_reply h (events ?s2 @ take j pes) c d (page_query ob (ks ! j) lm))"
          by blast
        then show ?thesis by (simp add: since Suc)
      qed
    qed
  qed
qed

text \<open>
  C3.  When \<open>get_entire_dataset\<close> returns, the count call returned some \<open>N\<close>, and one page
  request was issued for each offset 0, 100000, 200000, ... below \<open>N\<close>, in that ascending
  order; each carries what the remote call answered at that point.  The rows returned
  are the rows of these answers, page after page in that order and within a page in the
  order received: nothing is reordered, added or dropped.
\<close>

theorem get_entire_dataset_concat:
  assumes run: "get_entire_dataset h dataset_id order_by s = (Inr rows, s')"
  shows "\<exists>N. fst (get_dataset_count h dataset_id s) = Inr N
       \<and> length (page_requests (events_since s s')) = nat \<lceil>real_of_int N / 100000\<rceil>
       \<and> page_offsets (events_since s s')
           = map (\<lambda>i. int i * 100000) [0..<nat \<lceil>real_of_int N / 100000\<rceil>]
       \<and> sorted_wrt (<) (page_offsets (events_since s s'))
       \<and> (\<forall>i < nat \<lceil>real_of_int N / 100000\<rceil>.
             page_requests (events_since s s') ! i =
               Get (fst (client s)) dataset_id (page_query order_by (int i * 100000) 100000)
                 (get_reply h
                    (events (snd (get_dataset_count h dataset_id s))
                       @ take i (page_requests (events_since s s')))
                    (fst (client s)) dataset_id
                    (page_query order_by (int i * 100000) 100000)))
       \<and> rows = concat (map reply_rows (page_requests (events_since s s')))"
proof -
  let ?pes = "page_requests (events_since s s')"
  let ?s1 = "snd (get_dataset_count h dataset_id s)"
  let ?c = "fst (client s)"
  from get_entire_dataset_char[OF run] obtain N where
    cnt: "fst (get_dataset_count h dataset_id s) = Inr N"
    and ev: "events s' = events ?s1 @ ?pes"
    and q: "map request_query ?pes
          = map (\<lambda>k. Some (page_query order_by k 100000))
              (take (length ?pes) (py_range 0 N 100000))"
    and len: "length ?pes = length (py_range 0 N 100000)"
    and rows: "rows = concat (map reply_rows ?pes)"
    by auto
  let ?offs = "py_range 0 N 100000"
  let ?n = "nat \<lceil>real_of_int N / 100000\<rceil>"
  have closed: "?offs = map (\<lambda>i. int i * 100000) [0..<?n]"
    using py_range_closed[of 100000 N] by simp
  then have n: "length ?offs = ?n" by (metis length_map length_upt minus_nat.diff_0)
  from q len have "map request_query ?pes
      = map (\<lambda>k. Some (page_query order_by k 100000)) ?offs" by simp
  from page_events_are_pages(2)[OF this]
  have offs: "page_offsets (events_since s s') = ?offs"
    by (simp add: page_offsets_page_requests)
  obtain cres s1 where c1: "get_dataset_count h dataset_id s = (cres, s1)"
    by (cases "get_dataset_count h dataset_id s")
  have s1: "?s1 = s1" and cres: "cres = Inr N" using c1 cnt by simp_all
  have "self_client s1 = Some ?c" by (rule get_dataset_count_frame(1)[OF c1])
  then have cl: "self_client ?s1 = Some ?c" by (simp only: s1)
  have "fetch_pages h dataset_id order_by 100000 ?offs [] s1 = (Inr rows, s')"
    using run c1 cres by (simp add: get_entire_dataset_def)
  then have fp: "fetch_pages h dataset_id order_by 100000 ?offs [] ?s1 = (Inr rows, s')"
    by (simp only: s1)
  have since: "events_since ?s1 s' = ?pes" using ev by (rule events_since_append)
  note rep = fetch_pages_replies[OF cl fp, unfolded since]
  have replies: "\<forall>i < ?n.
             ?pes ! i =
               Get ?c dataset_id (page_query order_by (int i * 100000) 100000)
                 (get_reply h (events ?s1 @ take i ?pes) ?c dataset_id
                    (page_query order_by (int i * 100000) 100000))"
  proof (intro allI impI)
    fix i assume i: "i < ?n"
    then have "?offs ! i = int i * 100000"
      using py_range_nth[of 100000 i 0 N] n by simp
    with rep i len n show "?pes ! i =
               Get ?c dataset_id (page_query order_by (int i * 100000) 100000)
                 (get_reply h (events ?s1 @ take i ?pes) ?c dataset_id
                    (page_query order_by (int i * 100000) 100000))"
      by simp
  qed
  have sorted: "sorted_wrt (<) (page_offsets (events_since s s'))"
    using offs py_range_ascending[of 0 N 100000] by simp
  have lenn: "length ?pes = ?n" using len n by simp
  have offs': "page_offsets (events_since s s') = map (\<lambda>i. int i * 100000) [0..<?n]"
    using offs closed by simp
  from cnt lenn offs' sorted replies rows show ?thesis by blast
qed

text \<open>Three pages of two rows each come back as six rows, in that order.\<close>

theorem get_entire_dataset_concat_witness:
  "fst (get_entire_dataset short_host ''3qmf-vgdg'' ''date'' (init short_host ''t''))
   = Inr ([[(''offset'', JInt 0), (''i'', JInt 0)], [(''offset'', JInt 0), (''i'', JInt 1)]]
        @ [[(''offset'', JInt 100000), (''i'', JInt 0)], [(''offset'', JInt 100000), (''i'', JInt 1)]]
        @ [[(''offset'', JInt 200000), (''i'', JInt 0)], [(''offset'', JInt 200000), (''i'', JInt 1)]])
   \<and> page_offsets (events_since (init short_host ''t'')
         (snd (get_entire_dataset short_host ''3qmf-vgdg'' ''date'' (init short_host ''t''))))
       = [0, 100000, 200000]"
proof -
  let ?s = "init short_host ''t''"
  let ?run = "get_entire_dataset short_host ''3qmf-vgdg'' ''date'' ?s"
  have run: "?run = (Inr (projr (fst ?run)), snd ?run)"
    by (simp add: short_host_run)
  have e0: "events ?s = []" by (simp add: init_events)
  have count: "fst (get_dataset_count short_host ''3qmf-vgdg'' ?s) = Inr 250000"
    by (simp add: run_defs short_host_def int_of_str_250000 Let_def)
  have three: "map (\<lambda>i. int i * 100000) [0..<nat \<lceil>real_of_int 250000 / 100000\<rceil>]
                 = [0, 100000, 200000]"
    by (simp add: upt_rec)
  from get_entire_dataset_concat[OF run] obtain N where
    cnt: "fst (get_dataset_count short_host ''3qmf-vgdg'' ?s) = Inr N"
    and offs: "page_offsets (events_since ?s (snd ?run))
                 = map (\<lambda>i. int i * 100000) [0..<nat \<lceil>real_of_int N / 100000\<rceil>]"
    and rows: "projr (fst ?run)
                 = concat (map reply_rows (page_requests (events_since ?s (snd ?run))))"
    by (elim exE conjE) (rule that)
  from cnt count have "N = 250000" by simp
  with offs three have o: "page_offsets (events_since ?s (snd ?run)) = [0, 100000, 200000]"
    by simp
  have "fst ?run = Inr (projr (fst ?run))" using run by (metis fst_conv)
  with rows o show ?thesis
    using e0
    by (simp add: short_host_run events_since_def page_requests_def is_page_request_def
        page_query_def count_query_def)
qed

text \<open>
  C9.  Every page request of \<open>get_entire_dataset\<close>, the last one included, passes the
  limit 100000, whether the call returns or raises.
\<close>

theorem get_entire_dataset_limit:
  assumes run: "get_entire_dataset h dataset_id order_by s = (res, s')"
  shows "\<forall>ev \<in> set (page_requests (events_since s s')). request_limit ev = Some 100000"
proof -
  let ?pes = "page_requests (events_since s s')"
  from get_entire_dataset_char[OF run]
  have "?pes = [] \<or> (\<exists>ks. map request_query ?pes = map (\<lambda>k. Some (page_query order_by k 100000)) ks)"
    by blast
  then show ?thesis
  proof
    assume "?pes = []"
    then show ?thesis by simp
  next
    assume "\<exists>ks. map request_query ?pes = map (\<lambda>k. Some (page_query order_by k 100000)) ks"
    then obtain ks where
      "map request_query ?pes = map (\<lambda>k. Some (page_query order_by k 100000)) ks" by blast
    from page_events_are_pages(3)[OF this] show ?thesis .
  qed
qed

text \<open>
  With 250000 rows the last request, at offset 200000, still asks for 100000 rows; the
  remote returns 50000.
\<close>

theorem get_entire_dataset_limit_witness:
  "(let last_page = last (page_requests (events_since (init full_host ''t'')
         (snd (get_entire_dataset full_host ''3qmf-vgdg'' ''date'' (init full_host ''t'')))))
    in request_offset last_page = Some 200000
     \<and> request_limit last_page = Some 100000
     \<and> length (reply_rows last_page) = 50000)"
proof -
  let ?s = "init full_host ''t''"
  let ?run = "get_entire_dataset full_host ''3qmf-vgdg'' ''date'' ?s"
  let ?ev = "Get (Socrata ''data.lcb.wa.gov'' ''t'') ''3qmf-vgdg''
               (page_query ''date'' 200000 100000) (Inr (replicate 50000 sample_row))"
  have run: "?run = (fst ?run, snd ?run)" by simp
  have e0: "events ?s = []" by (simp add: init_events)
  have pages: "page_requests (events_since ?s (snd ?run))
     = [Get (Socrata ''data.lcb.wa.gov'' ''t'') ''3qmf-vgdg'' (page_query ''date'' 0 100000)
          (Inr (replicate 100000 sample_row)),
        Get (Socrata ''data.lcb.wa.gov'' ''t'') ''3qmf-vgdg'' (page_query ''date'' 100000 100000)
          (Inr (replicate 100000 sample_row)),
        ?ev]"
    using e0
    by (simp add: full_host_run events_since_def page_requests_def is_page_request_def
        page_query_def count_query_def)
  then have "?ev \<in> set (page_requests (events_since ?s (snd ?run)))" by simp
  with get_entire_dataset_limit[OF run] have "request_limit ?ev = Some 100000" by blast
  then show ?thesis by (simp add: pages page_query_def)
qed

section \<open>The single page and the data frame\<close>

lemma get_dataset_char:
  "get_dataset h d s =
     (get_reply h (events (snd (client s))) (fst (client s)) d
        \<lparr>q_select = None, q_order = None, q_offset = None, q_limit = Some 100000\<rparr>,
      (snd (client s))\<lparr>events := events (snd (client s)) @
        [Get (fst (client s)) d
           \<lparr>q_select = None, q_order = None, q_offset = None, q_limit = Some 100000\<rparr>
           (get_reply h (events (snd (client s))) (fst (client s)) d
              \<lparr>q_select = None, q_order = None, q_offset = None, q_limit = Some 100000\<rparr>)]\<rparr>)"
  by (simp add: get_dataset_def socrata_get_def Let_def split: prod.splits)

lemma client_events_since:
  "filter is_remote_request (events_since s (snd (client s))) = []"
  "filter is_from_records (events_since s (snd (client s))) = []"
  "events_since s ((snd (client s))\<lparr>events := events (snd (client s)) @ evs\<rparr>)
     = events_since s (snd (client s)) @ evs"
  by (cases "self_client s"; simp add: client_cached client_fresh events_since_def)+

text \<open>
  C6.  \<open>get_dataset\<close> issues exactly one remote request, a \<open>get\<close> whose limit is 100000
  and which passes nothing else, whatever the dataset: it never asks for more than
  100000 rows.
\<close>

theorem get_dataset_one_request:
  "filter is_remote_request (events_since s (snd (get_dataset h dataset_id s)))
     = [Get (fst (client s)) dataset_id
          \<lparr>q_select = None, q_order = None, q_offset = None, q_limit = Some 100000\<rparr>
          (fst (get_dataset h dataset_id s))]
   \<and> map request_limit
         (filter is_remote_request (events_since s (snd (get_dataset h dataset_id s))))
       = [Some 100000]"
  by (simp add: get_dataset_char client_events_since)

text \<open>
  C8 as stated fails: \<open>get_dataframe\<close> fetches the page before it looks the columns up, so
  when the fetch raises, that error comes out and not a key-lookup failure.  Here the
  portal answers an unknown id with an HTTP error.
\<close>

theorem get_dataframe_unknown_id_counterexample:
  "map_of WSLCB_PORTAL_DATASET_COLUMNS ''zzzz-zzzz'' = None
   \<and> fst (get_dataframe down_host ''zzzz-zzzz'' (init down_host ''t''))
       = Inl (OtherError ''HTTPError'')
   \<and> fst (get_dataframe down_host ''zzzz-zzzz'' (init down_host ''t''))
       \<noteq> Inl (KeyError ''zzzz-zzzz'')"
  by (simp add: WSLCB_PORTAL_DATASET_COLUMNS_def get_dataframe_def get_dataset_def client_def
      socrata_get_def init_def down_host_def const_host_def Let_def app_token_def)

text \<open>
  C8, amended.  For a dataset id that is not a key of the column table, \<open>get_dataframe\<close>
  first issues the page request.  If the request returns, the call raises \<open>KeyError\<close>; if
  the request raises, the call raises that error.  Either way \<open>DataFrame.from_records\<close> is
  never called and no data frame is returned.
\<close>

theorem get_dataframe_unknown_id:
  assumes "map_of WSLCB_PORTAL_DATASET_COLUMNS dataset_id = None"
  shows "get_dataframe h dataset_id s =
           (case get_dataset h dataset_id s of
              (Inl e, s1) \<Rightarrow> (Inl e, s1)
            | (Inr dataset, s1) \<Rightarrow> (Inl (KeyError dataset_id), s1))
       \<and> filter is_from_records (events_since s (snd (get_dataframe h dataset_id s))) = []
       \<and> (\<forall>df. fst (get_dataframe h dataset_id s) \<noteq> Inr df)"
proof -
  have eq: "get_dataframe h dataset_id s =
           (case get_dataset h dataset_id s of
              (Inl e, s1) \<Rightarrow> (Inl e, s1)
            | (Inr dataset, s1) \<Rightarrow> (Inl (KeyError dataset_id), s1))"
    using assms by (simp add: get_dataframe_def split: prod.splits sum.splits)
  then have snd_eq: "snd (get_dataframe h dataset_id s) = snd (get_dataset h dataset_id s)"
    by (simp split: prod.splits sum.splits)
  have "filter is_from_records (events_since s (snd (get_dataset h dataset_id s))) = []"
    by (simp add: get_dataset_char client_events_since)
  with eq snd_eq show ?thesis by (auto split: prod.splits sum.splits)
qed

text \<open>The portal returns an empty page for the unknown id: the lookup raises \<open>KeyError\<close>.\<close>

theorem get_dataframe_unknown_id_witness:
  "map_of WSLCB_PORTAL_DATASET_COLUMNS ''zzzz-zzzz'' = None
   \<and> get_dataframe empty_host ''zzzz-zzzz'' (init empty_host ''t'')
       = (Inl (KeyError ''zzzz-zzzz''),
          \<lparr>self_app_token = ''t'', self_client = Some (Socrata ''data.lcb.wa.gov'' ''t''),
           events = [NewSocrata ''data.lcb.wa.gov'' ''t'',
                     Get (Socrata ''data.lcb.wa.gov'' ''t'') ''zzzz-zzzz''
                       \<lparr>q_select = None, q_order = None, q_offset = None, q_limit = Some 100000\<rparr>
                       (Inr [])]\<rparr>)"
proof -
  have k: "map_of WSLCB_PORTAL_DATASET_COLUMNS ''zzzz-zzzz'' = None"
    by (simp add: WSLCB_PORTAL_DATASET_COLUMNS_def)
  from get_dataframe_unknown_id[OF k, of empty_host "init empty_host ''t''"] k
  show ?thesis
    by (simp add: get_dataset_def client_def socrata_get_def init_def empty_host_def
        const_host_def Let_def app_token_def WSLCB_PORTAL_URL_def)
qed

section \<open>Construction\<close>

text \<open>
  C5.  \<open>__init__\<close> stores a non-empty token as passed, without reading the environment.
  Given the empty token it reads \<open>WSLCB_APP_TOKEN\<close> and stores its value, or the empty
  string when the variable is not set.  The client starts unset.
\<close>

theorem init_token:
  "(tok \<noteq> '''' \<longrightarrow>
      self_app_token (init h tok) = tok \<and> filter is_getenv (events (init h tok)) = [])
   \<and> (tok = '''' \<longrightarrow>
        (\<forall>v. environ h ''WSLCB_APP_TOKEN'' = Some v \<longrightarrow> self_app_token (init h tok) = v)
      \<and> (environ h ''WSLCB_APP_TOKEN'' = None \<longrightarrow> self_app_token (init h tok) = '''')
      \<and> events (init h tok) = [Getenv ''WSLCB_APP_TOKEN'' (environ h ''WSLCB_APP_TOKEN'')])
   \<and> self_client (init h tok) = None"
  by (auto simp add: init_def getenv_def Let_def)

text \<open>A passed token wins over the variable; the variable is used without one; neither gives \<open>''\<close>.\<close>

theorem init_token_witness:
  "self_app_token (init env_host ''mine'') = ''mine''
   \<and> filter is_getenv (events (init env_host ''mine'')) = []
   \<and> self_app_token (init env_host '''') = ''secret''
   \<and> self_app_token (init empty_host '''') = ''''"
proof -
  have e: "environ env_host ''WSLCB_APP_TOKEN'' = Some ''secret''"
    by (simp add: env_host_def const_host_def)
  have n: "environ empty_host ''WSLCB_APP_TOKEN'' = None"
    by (simp add: empty_host_def const_host_def)
  from init_token[of "''mine''" env_host] init_token[of "''''" env_host]
    init_token[of "''''" empty_host] e n
  show ?thesis by simp
qed

section \<open>The row count\<close>

subsection \<open>\<open>int\<close> on strings\<close>

lemma digits_value_bad:
  "\<exists>c \<in> set s. \<not> is_digit c \<and> c \<noteq> CHR ''_'' \<Longrightarrow> digits_value acc s = None"
  by (induction acc s rule: digits_value.induct) auto

lemma digits_value_digits:
  "\<forall>c \<in> set s. is_digit c \<Longrightarrow>
   digits_value acc s = Some (foldl (\<lambda>a c. 10 * a + digit_val c) acc s)"
  by (induction acc s rule: digits_value.induct) auto

lemma in_dropWhile: "c \<in> set xs \<Longrightarrow> \<not> P c \<Longrightarrow> c \<in> set (dropWhile P xs)"
  by (induction xs) auto

lemma in_strip: "c \<in> set s \<Longrightarrow> \<not> is_space c \<Longrightarrow> c \<in> set (strip s)"
  by (simp add: strip_def in_dropWhile)

lemma digit_not_space: "is_digit c \<Longrightarrow> \<not> is_space c"
  by (auto simp add: is_digit_def is_space_def)

lemma digit_not_sign: "is_digit c \<Longrightarrow> c \<noteq> CHR ''-'' \<and> c \<noteq> CHR ''+''"
  by (auto simp add: is_digit_def)

lemma unsigned_value_bad:
  "\<exists>c \<in> set s. \<not> is_digit c \<and> c \<noteq> CHR ''_'' \<Longrightarrow> unsigned_value s = None"
proof -
  assume bad: "\<exists>c \<in> set s. \<not> is_digit c \<and> c \<noteq> CHR ''_''"
  then have "digits_value 0 s = None" by (rule digits_value_bad)
  then show ?thesis by (cases s) (simp_all add: unsigned_value_def)
qed

lemma int_of_str_bad:
  assumes "c \<in> set s" "\<not> is_digit c" "\<not> is_space c"
    and "c \<noteq> CHR ''+''" "c \<noteq> CHR ''-''" "c \<noteq> CHR ''_''"
  shows "int_of_str max_digits s = Inl ValueError"
proof -
  have t: "c \<in> set (strip s)" using assms(1,3) by (rule in_strip)
  then obtain x r where xr: "strip s = x # r" by (cases "strip s") auto
  have whole: "unsigned_value (x # r) = None"
    using t xr assms by (intro unsigned_value_bad) auto
  have rest: "unsigned_value r = None" if "x = CHR ''-'' \<or> x = CHR ''+''"
    using that t xr assms by (intro unsigned_value_bad) auto
  show ?thesis
    using xr whole rest by (simp add: int_of_str_def Let_def)
qed

lemma strip_digits:
  assumes "\<forall>c \<in> set s. is_digit c"
  shows "strip s = s"
proof (cases s)
  case Nil
  then show ?thesis by (simp add: strip_def)
next
  case (Cons x r)
  then have "\<not> is_space (hd s)" using assms by (simp add: digit_not_space)
  then have a: "dropWhile is_space s = s" using Cons by simp
  have "rev s \<noteq> []" using Cons by simp
  moreover have "last s \<in> set s" using Cons by simp
  then have "\<not> is_space (hd (rev s))"
    using assms by (metis hd_rev digit_not_space)
  ultimately have "dropWhile is_space (rev s) = rev s"
    by (cases "rev s") auto
  with a show ?thesis by (simp add: strip_def)
qed

lemma int_of_str_digits:
  assumes "s \<noteq> []" "\<forall>c \<in> set s. is_digit c"
  shows "int_of_str max_digits s =
           (if max_digits \<noteq> 0 \<and> max_digits < length s then Inl ValueError
            else Inr (decimal s))"
proof -
  obtain x r where xr: "s = x # r" using assms(1) by (cases s) auto
  have x: "is_digit x" using assms(2) xr by simp
  have all: "filter is_digit (x # r) = x # r" using assms(2) xr by simp
  have st: "strip (x # r) = x # r" using strip_digits[OF assms(2)] xr by simp
  have u: "unsigned_value (x # r) = Some (decimal (x # r))"
    using xr x digits_value_digits[OF assms(2), of 0]
    by (simp add: unsigned_value_def decimal_def)
  have "int_of_str max_digits (x # r) =
           (if max_digits \<noteq> 0 \<and> max_digits < length (x # r) then Inl ValueError
            else Inr (decimal (x # r)))"
    using digit_not_sign[OF x]
    by (simp add: int_of_str_def Let_def st u all del: filter.simps)
  then show ?thesis by (simp only: xr)
qed

lemma get_dataset_count_request:
  "filter is_remote_request (events_since s (snd (get_dataset_count h d s)))
     = [Get (fst (client s)) d count_query
          (get_reply h (events (snd (client s))) (fst (client s)) d count_query)]"
proof -
  obtain res s1 where run: "get_dataset_count h d s = (res, s1)"
    by (cases "get_dataset_count h d s")
  from get_dataset_count_char[OF run] obtain c s0 where
    cl: "client s = (c, s0)"
    and s1: "s1 = s0\<lparr>events := events s0 @
               [Get c d count_query (get_reply h (events s0) c d count_query)]\<rparr>"
    by blast
  from cl have c: "fst (client s) = c" and s0: "snd (client s) = s0" by simp_all
  show ?thesis
    using client_events_since(1,3)[of s] by (simp add: run s1 c s0)
qed

text \<open>
  C7 as stated fails where it names the error: on an empty result \<open>metadata[0]\<close> raises
  \<open>IndexError\<close>, which is not an error of the conversion (\<open>int\<close> raises \<open>ValueError\<close>,
  \<open>TypeError\<close> or \<open>OverflowError\<close>).
\<close>

theorem get_dataset_count_empty_counterexample:
  "fst (get_dataset_count empty_host ''3qmf-vgdg'' (init empty_host ''t'')) = Inl IndexError
   \<and> fst (get_dataset_count empty_host ''3qmf-vgdg'' (init empty_host ''t'')) \<noteq> Inl ValueError
   \<and> fst (get_dataset_count empty_host ''3qmf-vgdg'' (init empty_host ''t'')) \<noteq> Inl TypeError
   \<and> fst (get_dataset_count empty_host ''3qmf-vgdg'' (init empty_host ''t'')) \<noteq> Inl OverflowError"
  by (simp add: get_dataset_count_def client_def socrata_get_def init_def empty_host_def
      const_host_def Let_def app_token_def)

text \<open>
  C7, amended.  \<open>get_dataset_count\<close> issues a single remote request, the count-only
  query, and returns the \<open>count\<close> field of the first row converted by \<open>int\<close>.  An error of
  the request is raised as it is.  An empty result raises \<open>IndexError\<close>, a first row
  without the field \<open>KeyError\<close>.  A field that is not a number raises a conversion error:
  \<open>ValueError\<close> for a string holding a character that is no digit, sign, underscore or
  white space, \<open>TypeError\<close> for null, an array or an object.  A string of digits gives its
  decimal value, unless it has more digits than the interpreter's limit, which raises
  \<open>ValueError\<close>.  An integer is returned as it is, a boolean as 0 or 1, a finite float
  truncated towards zero; not-a-number raises \<open>ValueError\<close> and an infinity
  \<open>OverflowError\<close>.
\<close>

theorem get_dataset_count_result:
  "filter is_remote_request (events_since s (snd (get_dataset_count h dataset_id s)))
       = [Get (fst (client s)) dataset_id count_query (count_reply h dataset_id s)]
   \<and> (\<forall>e. count_reply h dataset_id s = Inl e \<longrightarrow>
          fst (get_dataset_count h dataset_id s) = Inl e)
   \<and> (count_reply h dataset_id s = Inr [] \<longrightarrow>
          fst (get_dataset_count h dataset_id s) = Inl IndexError)
   \<and> (\<forall>row rest. count_reply h dataset_id s = Inr (row # rest) \<longrightarrow>
        (map_of row ''count'' = None \<longrightarrow>
           fst (get_dataset_count h dataset_id s) = Inl (KeyError ''count''))
      \<and> (\<forall>v. map_of row ''count'' = Some v \<longrightarrow>
             fst (get_dataset_count h dataset_id s) = py_int (int_max_str_digits h) v
           \<and> (v = JNull \<or> (\<exists>xs. v = JArray xs) \<or> (\<exists>kvs. v = JObject kvs) \<longrightarrow>
                fst (get_dataset_count h dataset_id s) = Inl TypeError)
           \<and> (\<forall>str. v = JStr str
                  \<and> (\<exists>ch \<in> set str. \<not> is_digit ch \<and> \<not> is_space ch
                        \<and> ch \<noteq> CHR ''+'' \<and> ch \<noteq> CHR ''-'' \<and> ch \<noteq> CHR ''_'') \<longrightarrow>
                fst (get_dataset_count h dataset_id s) = Inl ValueError)
           \<and> (\<forall>str. v = JStr str \<and> str \<noteq> [] \<and> (\<forall>ch \<in> set str. is_digit ch) \<longrightarrow>
                fst (get_dataset_count h dataset_id s) =
                  (if int_max_str_digits h \<noteq> 0 \<and> int_max_str_digits h < length str
                   then Inl ValueError else Inr (decimal str)))
           \<and> (\<forall>n. v = JInt n \<longrightarrow> fst (get_dataset_count h dataset_id s) = Inr n)
           \<and> (\<forall>b. v = JBool b \<longrightarrow>
                fst (get_dataset_count h dataset_id s) = Inr (if b then 1 else 0))
           \<and> (\<forall>q. v = JFloat (Finite q) \<longrightarrow>
                fst (get_dataset_count h dataset_id s) = Inr (if 0 \<le> q then \<lfloor>q\<rfloor> else \<lceil>q\<rceil>))
           \<and> (v = JFloat NaN \<longrightarrow> fst (get_dataset_count h dataset_id s) = Inl ValueError)
           \<and> (v = JFloat Infinity \<or> v = JFloat MinusInfinity \<longrightarrow>
                fst (get_dataset_count h dataset_id s) = Inl OverflowError)))"
proof -
  obtain res s1 where run: "get_dataset_count h dataset_id s = (res, s1)"
    by (cases "get_dataset_count h dataset_id s")
  from get_dataset_count_char[OF run]
  have res: "res = (case count_reply h dataset_id s of
                 Inl e \<Rightarrow> Inl e
               | Inr [] \<Rightarrow> Inl IndexError
               | Inr (row # _) \<Rightarrow>
                   (case map_of row ''count'' of
                      None \<Rightarrow> Inl (KeyError ''count'')
                    | Some v \<Rightarrow> py_int (int_max_str_digits h) v))"
    by (auto simp add: count_reply_def)
  have bad: "\<And>str. (\<exists>ch \<in> set str. \<not> is_digit ch \<and> \<not> is_space ch
                        \<and> ch \<noteq> CHR ''+'' \<and> ch \<noteq> CHR ''-'' \<and> ch \<noteq> CHR ''_'')
               \<Longrightarrow> py_int (int_max_str_digits h) (JStr str) = Inl ValueError"
    using int_of_str_bad by auto
  have good: "\<And>str. str \<noteq> [] \<Longrightarrow> (\<forall>ch \<in> set str. is_digit ch)
               \<Longrightarrow> py_int (int_max_str_digits h) (JStr str) =
                     (if int_max_str_digits h \<noteq> 0 \<and> int_max_str_digits h < length str
                      then Inl ValueError else Inr (decimal str))"
    using int_of_str_digits by simp
  have req: "filter is_remote_request (events_since s (snd (get_dataset_count h dataset_id s)))
       = [Get (fst (client s)) dataset_id count_query (count_reply h dataset_id s)]"
    by (simp add: get_dataset_count_request count_reply_def)
  show ?thesis
    using bad good req by (auto simp add: run res)
qed

text \<open>A count of \<open>'250000'\<close> gives 250000, \<open>'n/a'\<close> raises \<open>ValueError\<close>, no row raises \<open>IndexError\<close>.\<close>

theorem get_dataset_count_result_witness:
  "fst (get_dataset_count full_host ''3qmf-vgdg'' (init full_host ''t'')) = Inr 250000
   \<and> fst (get_dataset_count words_host ''3qmf-vgdg'' (init words_host ''t'')) = Inl ValueError
   \<and> fst (get_dataset_count empty_host ''3qmf-vgdg'' (init empty_host ''t'')) = Inl IndexError"
proof -
  let ?d = "''3qmf-vgdg''"
  have r1: "count_reply full_host ?d (init full_host ''t'') = Inr [[(''count'', JStr ''250000'')]]"
    by (simp add: count_reply_def full_host_def paging_host_def count_query_def)
  have r2: "count_reply words_host ?d (init words_host ''t'') = Inr [[(''count'', JStr ''n/a'')]]"
    by (simp add: count_reply_def words_host_def paging_host_def count_query_def)
  have r3: "count_reply empty_host ?d (init empty_host ''t'') = Inr []"
    by (simp add: count_reply_def empty_host_def const_host_def)
  have m1: "int_max_str_digits full_host = 4300"
    by (simp add: full_host_def paging_host_def)
  have d1: "\<forall>ch \<in> set ''250000''. is_digit ch" by (simp add: is_digit_def)
  have d2: "decimal ''250000'' = 250000" by (simp add: decimal_def digit_val_def)
  have d3: "\<not> is_digit CHR ''n'' \<and> \<not> is_space CHR ''n''"
    by (simp add: is_digit_def is_space_def)
  from get_dataset_count_result[of "init full_host ''t''" full_host ?d]
  have "fst (get_dataset_count full_host ?d (init full_host ''t'')) = Inr (decimal ''250000'')"
    using d1 by (auto simp add: r1 m1)
  moreover
  from get_dataset_count_result[of "init words_host ''t''" words_host ?d]
  have "fst (get_dataset_count words_host ?d (init words_host ''t'')) = Inl ValueError"
    using d3 by (auto simp add: r2)
  moreover
  from get_dataset_count_result[of "init empty_host ''t''" empty_host ?d]
  have "fst (get_dataset_count empty_host ?d (init empty_host ''t'')) = Inl IndexError"
    by (auto simp add: r3)
  ultimately show ?thesis by (simp add: d2)
qed

section \<open>The lazy client and the token\<close>

lemma same_instance_refl: "same_instance s s"
  by (simp add: same_instance_def events_since_def)

lemma same_instanceI:
  "self_app_token s' = self_app_token s \<Longrightarrow> self_client s' = self_client s \<Longrightarrow>
   events s' = events s @ evs \<Longrightarrow> filter is_construction evs = [] \<Longrightarrow> same_instance s s'"
  by (simp add: same_instance_def events_since_def)

lemma same_instanceD:
  assumes "same_instance s s'"
  shows "self_app_token s' = self_app_token s" "self_client s' = self_client s"
    "\<exists>evs. events s' = events s @ evs \<and> filter is_construction evs = []"
proof -
  from assms show "self_app_token s' = self_app_token s" "self_client s' = self_client s"
    by (simp_all add: same_instance_def)
  from assms have t: "take (length (events s)) (events s') = events s"
    and f: "filter is_construction (drop (length (events s)) (events s')) = []"
    by (simp_all add: same_instance_def events_since_def)
  have "events s' = take (length (events s)) (events s') @ drop (length (events s)) (events s')"
    by simp
  with t f show "\<exists>evs. events s' = events s @ evs \<and> filter is_construction evs = []"
    by metis
qed

lemma same_instance_trans:
  assumes "same_instance s s1" "same_instance s1 s2"
  shows "same_instance s s2"
proof -
  from same_instanceD[OF assms(1)] obtain e1 where
    a: "self_app_token s1 = self_app_token s" "self_client s1 = self_client s"
       "events s1 = events s @ e1" "filter is_construction e1 = []" by blast
  from same_instanceD[OF assms(2)] obtain e2 where
    b: "self_app_token s2 = self_app_token s1" "self_client s2 = self_client s1"
       "events s2 = events s1 @ e2" "filter is_construction e2 = []" by blast
  show ?thesis
    using a b by (intro same_instanceI[where evs = "e1 @ e2"]) simp_all
qed

lemma same_instance_socrata_get: "same_instance s (snd (socrata_get h c d q s))"
  by (rule same_instanceI[where evs = "[Get c d q (get_reply h (events s) c d q)]"])
     (simp_all add: socrata_get_def Let_def)

lemma same_instance_socrata_get_metadata: "same_instance s (snd (socrata_get_metadata h c d s))"
  by (rule same_instanceI[where evs = "[GetMetadata c d (get_metadata_reply h (events s) c d)]"])
     (simp_all add: socrata_get_metadata_def Let_def)

lemma same_instance_from_records: "same_instance s (snd (from_records h rows cols s))"
  by (rule same_instanceI[where evs = "[FromRecords rows cols (from_records_reply h (events s) rows cols)]"])
     (simp_all add: from_records_def Let_def)

lemma same_instance_localtime: "same_instance s (snd (localtime h t s))"
  by (rule same_instanceI[where evs = "[Localtime t (localtime_reply h (events s) t)]"])
     (simp_all add: localtime_def Let_def)

lemma same_instance_fetch_pages:
  "self_client s = Some c \<Longrightarrow> same_instance s (snd (fetch_pages h d ob lm offs ds s))"
proof (induction offs arbitrary: ds s)
  case Nil
  then show ?case by (simp add: same_instance_refl)
next
  case (Cons k ks)
  let ?g = "socrata_get h c d (page_query ob k lm) s"
  have g: "same_instance s (snd ?g)" by (rule same_instance_socrata_get)
  then have c2: "self_client (snd ?g) = Some c" using Cons.prems by (simp add: same_instance_def)
  show ?case
  proof (cases "fst ?g")
    case (Inl e)
    then have "snd (fetch_pages h d ob lm (k # ks) ds s) = snd ?g"
      using Cons.prems by (auto simp add: client_cached split: prod.splits)
    with g show ?thesis by simp
  next
    case (Inr page)
    then have "snd (fetch_pages h d ob lm (k # ks) ds s)
                 = snd (fetch_pages h d ob lm ks (ds @ page) (snd ?g))"
      using Cons.prems by (auto simp add: client_cached split: prod.splits)
    with same_instance_trans[OF g Cons.IH[OF c2]] show ?thesis by simp
  qed
qed

lemma same_instance_get_dataset_metadata:
  "same_instance (snd (client s)) (snd (get_dataset_metadata h d s))"
  by (simp add: get_dataset_metadata_def same_instance_socrata_get_metadata split: prod.splits)

lemma same_instance_get_dataset_count:
  "same_instance (snd (client s)) (snd (get_dataset_count h d s))"
proof -
  have "snd (get_dataset_count h d s) = snd (socrata_get h (fst (client s)) d count_query (snd (client s)))"
    by (simp add: get_dataset_count_def split: prod.splits sum.splits list.splits option.splits)
  then show ?thesis by (simp add: same_instance_socrata_get)
qed

lemma same_instance_get_dataset:
  "same_instance (snd (client s)) (snd (get_dataset h d s))"
  by (simp add: get_dataset_def same_instance_socrata_get split: prod.splits)

lemma same_instance_get_entire_dataset:
  "same_instance (snd (client s)) (snd (get_entire_dataset h d ob s))"
proof (cases "fst (get_dataset_count h d s)")
  case (Inl e)
  then have "snd (get_entire_dataset h d ob s) = snd (get_dataset_count h d s)"
    by (auto simp add: get_entire_dataset_def split: prod.splits)
  then show ?thesis by (simp add: same_instance_get_dataset_count)
next
  case (Inr N)
  let ?s1 = "snd (get_dataset_count h d s)"
  have a: "same_instance (snd (client s)) ?s1" by (rule same_instance_get_dataset_count)
  then have "self_client ?s1 = Some (fst (client s))"
    by (simp add: same_instance_def client_sets)
  then have b: "same_instance ?s1 (snd (fetch_pages h d ob 100000 (py_range 0 N 100000) [] ?s1))"
    by (rule same_instance_fetch_pages)
  have "snd (get_entire_dataset h d ob s)
          = snd (fetch_pages h d ob 100000 (py_range 0 N 100000) [] ?s1)"
    using Inr by (auto simp add: get_entire_dataset_def split: prod.splits)
  with same_instance_trans[OF a b] show ?thesis by simp
qed

lemma same_instance_get_dataframe:
  "same_instance (snd (client s)) (snd (get_dataframe h d s))"
proof -
  let ?s1 = "snd (get_dataset h d s)"
  have a: "same_instance (snd (client s)) ?s1" by (rule same_instance_get_dataset)
  have "snd (get_dataframe h d s) = ?s1
      \<or> (\<exists>rows cols. snd (get_dataframe h d s) = snd (from_records h rows cols ?s1))"
    by (auto simp add: get_dataframe_def split: prod.splits sum.splits option.splits)
  then show ?thesis
    using a same_instance_trans[OF a same_instance_from_records] by auto
qed

lemma same_instance_dataset_last_updated:
  "same_instance (snd (client s)) (snd (dataset_last_updated h d s))"
proof -
  let ?s1 = "snd (get_dataset_metadata h d s)"
  have a: "same_instance (snd (client s)) ?s1" by (rule same_instance_get_dataset_metadata)
  have "snd (dataset_last_updated h d s) = ?s1
      \<or> (\<exists>t. snd (dataset_last_updated h d s) = snd (localtime h t ?s1))"
    by (auto simp add: dataset_last_updated_def split: prod.splits sum.splits option.splits)
  then show ?thesis
    using a same_instance_trans[OF a same_instance_localtime] by auto
qed

lemma invoke_frame:
  "invoke h m s = set_app_token (self_app_token (invoke h m s)) s \<and> is_setter m
   \<or> invoke h m s = s
   \<or> same_instance (snd (client s)) (invoke h m s)"
  by (cases m)
     (simp_all add: same_instance_get_dataset_metadata same_instance_get_dataset_count
        same_instance_get_dataset same_instance_get_entire_dataset same_instance_get_dataframe
        same_instance_dataset_last_updated same_instance_refl set_app_token_def)

lemma invoke_token: "\<not> is_setter m \<Longrightarrow> self_app_token (invoke h m s) = self_app_token s"
  using invoke_frame[of h m s] client_token[of s]
  by (auto simp add: same_instance_def)

lemma invoke_client:
  "self_client (invoke h m s) = self_client s
   \<or> self_client s = None
     \<and> self_client (invoke h m s) = Some (Socrata WSLCB_PORTAL_URL (self_app_token s))"
proof -
  have cl: "self_client (snd (client s)) = self_client s
     \<or> self_client s = None
       \<and> self_client (snd (client s)) = Some (Socrata WSLCB_PORTAL_URL (self_app_token s))"
    by (cases "self_client s") (simp_all add: client_cached client_fresh)
  from invoke_frame[of h m s] show ?thesis
  proof (elim disjE)
    assume "invoke h m s = set_app_token (self_app_token (invoke h m s)) s \<and> is_setter m"
    then have "self_client (invoke h m s) = self_client (set_app_token (self_app_token (invoke h m s)) s)"
      by simp
    then show ?thesis by (simp add: set_app_token_def)
  next
    assume "invoke h m s = s"
    then show ?thesis by simp
  next
    assume "same_instance (snd (client s)) (invoke h m s)"
    then have "self_client (invoke h m s) = self_client (snd (client s))"
      by (simp add: same_instance_def)
    with cl show ?thesis by simp
  qed
qed

lemma invoke_all_token:
  "\<forall>m \<in> set ms. \<not> is_setter m \<Longrightarrow> self_app_token (invoke_all h ms s) = self_app_token s"
  by (induction ms arbitrary: s) (simp_all add: invoke_token)

lemma invoke_all_client:
  "self_client s = Some c \<Longrightarrow> self_client (invoke_all h ms s) = Some c"
proof (induction ms arbitrary: s)
  case Nil
  then show ?case by simp
next
  case (Cons m ms)
  from invoke_client[of h m s] Cons.prems have "self_client (invoke h m s) = Some c" by auto
  then show ?case using Cons.IH by simp
qed

lemma client_constructions:
  assumes "constructions s = construction_of (self_client s)"
  shows "constructions (snd (client s)) = construction_of (self_client (snd (client s)))"
  using assms
  by (cases "self_client s") (simp_all add: client_cached client_fresh constructions_def)

lemma same_instance_constructions:
  assumes "same_instance s s'" "constructions s = construction_of (self_client s)"
  shows "constructions s' = construction_of (self_client s')"
proof -
  from same_instanceD[OF assms(1)] obtain evs where
    "self_client s' = self_client s" "events s' = events s @ evs"
    "filter is_construction evs = []" by blast
  with assms(2) show ?thesis by (simp add: constructions_def)
qed

lemma invoke_constructions:
  assumes "constructions s = construction_of (self_client s)"
  shows "constructions (invoke h m s) = construction_of (self_client (invoke h m s))"
proof -
  from invoke_frame[of h m s] show ?thesis
  proof (elim disjE)
    assume a: "invoke h m s = set_app_token (self_app_token (invoke h m s)) s \<and> is_setter m"
    have "\<And>v. constructions (set_app_token v s) = construction_of (self_client (set_app_token v s))"
      using assms by (simp add: set_app_token_def constructions_def)
    with a show ?thesis by metis
  next
    assume "invoke h m s = s"
    with assms show ?thesis by simp
  next
    assume "same_instance (snd (client s)) (invoke h m s)"
    then show ?thesis
      using client_constructions[OF assms] by (rule same_instance_constructions)
  qed
qed

lemma invoke_all_constructions:
  "constructions s = construction_of (self_client s) \<Longrightarrow>
   constructions (invoke_all h ms s) = construction_of (self_client (invoke_all h ms s))"
  by (induction ms arbitrary: s) (simp_all add: invoke_constructions)

lemma init_constructions: "constructions (init h tok) = construction_of (self_client (init h tok))"
  by (simp add: init_def getenv_def constructions_def Let_def)

lemma construction_of_length: "length (construction_of c) \<le> 1"
  by (cases c rule: construction_of.cases) simp_all

lemma empty_host_first_count:
  "invoke empty_host (Get_dataset_count ''3qmf-vgdg'') (init empty_host ''t'')
   = \<lparr>self_app_token = ''t'', self_client = Some (Socrata ''data.lcb.wa.gov'' ''t''),
      events = [NewSocrata ''data.lcb.wa.gov'' ''t'',
                Get (Socrata ''data.lcb.wa.gov'' ''t'') ''3qmf-vgdg'' count_query (Inr [])]\<rparr>"
  by (simp add: get_dataset_count_def client_def app_token_def socrata_get_def init_def
      WSLCB_PORTAL_URL_def empty_host_def const_host_def Let_def)

text \<open>
  C4.  The first access to \<open>client\<close> builds the handle from the portal address and the
  token stored at that moment, and caches it.  Every later access returns the cached
  handle and builds nothing, also after the token has been set to another value.
  Whatever is called on an instance after its construction, the clients built for it
  are at most one, the one that is cached.
\<close>

theorem client_built_once:
  "(self_client s = None \<longrightarrow>
      client s = (Socrata WSLCB_PORTAL_URL (self_app_token s),
                  s\<lparr>self_client := Some (Socrata WSLCB_PORTAL_URL (self_app_token s)),
                    events := events s @ [NewSocrata WSLCB_PORTAL_URL (self_app_token s)]\<rparr>))
   \<and> (\<forall>c. self_client s = Some c \<longrightarrow>
          client s = (c, s) \<and> client (set_app_token v s) = (c, set_app_token v s))
   \<and> constructions (invoke_all h ms (init h tok))
       = construction_of (self_client (invoke_all h ms (init h tok)))
   \<and> length (constructions (invoke_all h ms (init h tok))) \<le> 1"
proof -
  have a: "self_client s = None \<longrightarrow>
      client s = (Socrata WSLCB_PORTAL_URL (self_app_token s),
                  s\<lparr>self_client := Some (Socrata WSLCB_PORTAL_URL (self_app_token s)),
                    events := events s @ [NewSocrata WSLCB_PORTAL_URL (self_app_token s)]\<rparr>)"
    by (simp add: client_fresh)
  have b: "\<forall>c. self_client s = Some c \<longrightarrow>
          client s = (c, s) \<and> client (set_app_token v s) = (c, set_app_token v s)"
    by (simp add: client_cached set_app_token_def)
  have c: "constructions (invoke_all h ms (init h tok))
       = construction_of (self_client (invoke_all h ms (init h tok)))"
    by (rule invoke_all_constructions) (rule init_constructions)
  have d: "length (constructions (invoke_all h ms (init h tok))) \<le> 1"
    by (simp only: c construction_of_length)
  from a b c d show ?thesis by blast
qed

text \<open>
  Built with token \<open>t\<close>; the token is then set to \<open>other\<close>: the handle and the one
  construction still carry \<open>t\<close>.
\<close>

theorem client_built_once_witness:
  "client (init empty_host ''t'')
     = (Socrata ''data.lcb.wa.gov'' ''t'',
        \<lparr>self_app_token = ''t'', self_client = Some (Socrata ''data.lcb.wa.gov'' ''t''),
         events = [NewSocrata ''data.lcb.wa.gov'' ''t'']\<rparr>)
   \<and> client (set_app_token ''other'' (snd (client (init empty_host ''t''))))
     = (Socrata ''data.lcb.wa.gov'' ''t'',
        \<lparr>self_app_token = ''other'', self_client = Some (Socrata ''data.lcb.wa.gov'' ''t''),
         events = [NewSocrata ''data.lcb.wa.gov'' ''t'']\<rparr>)
   \<and> constructions
        (invoke_all empty_host
           [Read_client, Write_app_token ''other'', Get_dataset_count ''3qmf-vgdg'', Read_client]
           (init empty_host ''t''))
     = [NewSocrata ''data.lcb.wa.gov'' ''t'']"
proof -
  let ?s0 = "init empty_host ''t''"
  let ?c = "Socrata ''data.lcb.wa.gov'' ''t''"
  let ?s1 = "\<lparr>self_app_token = ''t'', self_client = Some ?c,
              events = [NewSocrata ''data.lcb.wa.gov'' ''t'']\<rparr>"
  let ?ms = "[Read_client, Write_app_token ''other'', Get_dataset_count ''3qmf-vgdg'', Read_client]"
  have s0: "?s0 = \<lparr>self_app_token = ''t'', self_client = None, events = []\<rparr>"
    by (simp add: init_def)
  have none: "self_client ?s0 = None" by (simp add: s0)
  from client_built_once[of ?s0 "''other''" empty_host "[]" "''t''"] none
  have first: "client ?s0 = (?c, ?s1)"
    by (simp add: s0 WSLCB_PORTAL_URL_def)
  have some: "self_client ?s1 = Some ?c" by simp
  from client_built_once[of ?s1 "''other''" empty_host "[]" "''t''"] some
  have later: "client (set_app_token ''other'' ?s1) = (?c, set_app_token ''other'' ?s1)"
    by simp
  have final: "self_client (invoke_all empty_host ?ms ?s0) = Some ?c"
    by (simp only: s0)
       (simp add: client_def app_token_def set_app_token_def get_dataset_count_def
          socrata_get_def WSLCB_PORTAL_URL_def empty_host_def const_host_def Let_def)
  from client_built_once[of ?s0 "''other''" empty_host ?ms "''t''"]
  have "constructions (invoke_all empty_host ?ms ?s0)
          = construction_of (self_client (invoke_all empty_host ?ms ?s0))"
    by blast
  then have built: "constructions (invoke_all empty_host ?ms ?s0) = [NewSocrata ''data.lcb.wa.gov'' ''t'']"
    by (simp only: final construction_of.simps)
  from first later built show ?thesis
    by (simp add: set_app_token_def)
qed

text \<open>
  C10.  No method but the token's setter changes the stored token, along any sequence
  of calls.  A call leaves the client field as it was, or takes it from unset to the
  handle built from the token of that moment; once set, no call and no sequence of
  calls assigns it again.
\<close>

theorem fields_frame:
  "(\<not> is_setter m \<longrightarrow> self_app_token (invoke h m s) = self_app_token s)
   \<and> (\<forall>c. self_client s = Some c \<longrightarrow> self_client (invoke h m s) = Some c)
   \<and> (self_client s = None \<longrightarrow>
        self_client (invoke h m s) = None
      \<or> self_client (invoke h m s) = Some (Socrata WSLCB_PORTAL_URL (self_app_token s)))
   \<and> ((\<forall>m \<in> set ms. \<not> is_setter m) \<longrightarrow>
        self_app_token (invoke_all h ms s) = self_app_token s)
   \<and> (\<forall>c. self_client s = Some c \<longrightarrow> self_client (invoke_all h ms s) = Some c)"
proof -
  have a: "\<not> is_setter m \<longrightarrow> self_app_token (invoke h m s) = self_app_token s"
    by (simp add: invoke_token)
  have b: "\<forall>c. self_client s = Some c \<longrightarrow> self_client (invoke h m s) = Some c"
    using invoke_client[of h m s] by auto
  have c: "self_client s = None \<longrightarrow>
        self_client (invoke h m s) = None
      \<or> self_client (invoke h m s) = Some (Socrata WSLCB_PORTAL_URL (self_app_token s))"
    using invoke_client[of h m s] by auto
  have d: "(\<forall>m \<in> set ms. \<not> is_setter m) \<longrightarrow>
        self_app_token (invoke_all h ms s) = self_app_token s"
    by (simp add: invoke_all_token)
  have e: "\<forall>c. self_client s = Some c \<longrightarrow> self_client (invoke_all h ms s) = Some c"
    by (simp add: invoke_all_client)
  from a b c d e show ?thesis by blast
qed

text \<open>
  The first fetch sets the client and keeps the token; setting the token and
  fetching again keeps the client.
\<close>

theorem fields_frame_witness:
  "self_app_token (invoke empty_host (Get_dataset_count ''3qmf-vgdg'') (init empty_host ''t'')) = ''t''
   \<and> self_client (invoke empty_host (Get_dataset_count ''3qmf-vgdg'') (init empty_host ''t''))
       = Some (Socrata ''data.lcb.wa.gov'' ''t'')
   \<and> self_client
        (invoke_all empty_host
           [Write_app_token ''other'', Get_dataframe ''3qmf-vgdg'', Dataset_last_updated ''3qmf-vgdg'']
           (invoke empty_host (Get_dataset_count ''3qmf-vgdg'') (init empty_host ''t'')))
       = Some (Socrata ''data.lcb.wa.gov'' ''t'')
   \<and> self_app_token
        (invoke_all empty_host
           [Get_dataset ''3qmf-vgdg'', Get_entire_dataset ''3qmf-vgdg'' ''date'', Read_client]
           (init empty_host ''t''))
       = ''t''"
proof -
  let ?s0 = "init empty_host ''t''"
  let ?m = "Get_dataset_count ''3qmf-vgdg''"
  let ?c = "Socrata ''data.lcb.wa.gov'' ''t''"
  let ?ms1 = "[Write_app_token ''other'', Get_dataframe ''3qmf-vgdg'',
               Dataset_last_updated ''3qmf-vgdg'']"
  let ?ms2 = "[Get_dataset ''3qmf-vgdg'', Get_entire_dataset ''3qmf-vgdg'' ''date'', Read_client]"
  have tok0: "self_app_token ?s0 = ''t''" by (simp add: init_def)
  have some: "self_client (invoke empty_host ?m ?s0) = Some ?c"
    by (simp only: empty_host_first_count) simp
  have fetches: "\<forall>m \<in> set ?ms2. \<not> is_setter m" by simp
  from fields_frame[of ?m empty_host ?s0 ?ms2] tok0 fetches
  have a: "self_app_token (invoke empty_host ?m ?s0) = ''t''"
    and d: "self_app_token (invoke_all empty_host ?ms2 ?s0) = ''t''"
    by simp_all
  from fields_frame[of ?m empty_host "invoke empty_host ?m ?s0" ?ms1] some
  have c: "self_client (invoke_all empty_host ?ms1 (invoke empty_host ?m ?s0)) = Some ?c"
    by blast
  from a some c d show ?thesis by blast
qed

end
